theory Spec2Isabelle
  imports
    Complex_Main
    "HOL-Library.AList"
    "HOL-Library.List_Lexorder"
    "HOL-Library.Char_ord"
    "HOL-Library.Multiset"
begin

section \<open>The row value model\<close>

text \<open>
  A row is a Go \<^verbatim>\<open>map[string]any\<close>. The dynamic values a row can hold are nil, booleans,
  numbers, strings, slices (\<^verbatim>\<open>[]any\<close>) and nested maps (\<^verbatim>\<open>map[string]any\<close>). A number
  carries its Go type, one of the integer types or one of the two floating-point types,
  beside its value: \<^verbatim>\<open>int(1)\<close>, \<^verbatim>\<open>int64(1)\<close> and \<^verbatim>\<open>float64(1)\<close> are three values. A
  snapshot decoded from JSON holds no number but a float64. A floating-point number is
  represented by the rational number it denotes, so the values that are not numbers
  (NaN, the infinities) and the sign of zero are outside the model; JSON cannot write
  the former.

  A Go map is represented by an association list, read through \<^const>\<open>map_of\<close>: the
  columns of a row are \<open>map fst row\<close>, the value of column \<open>k\<close> is \<open>map_of row k\<close>.
  Strings are byte sequences, ordered bytewise as Go orders them.
\<close>

datatype intKind =
    GoInt | GoInt8 | GoInt16 | GoInt32 | GoInt64
  | GoUint | GoUint8 | GoUint16 | GoUint32 | GoUint64 | GoUintptr

datatype floatKind = GoFloat32 | GoFloat64

datatype val =
    VNil
  | VBool bool
  | VInteger intKind int
  | VFloating floatKind rat
  | VStr string
  | VList "val list"
  | VMap "(string \<times> val) list"

text \<open>The rendering of a floating-point number of a given type, a parameter of the model.\<close>

type_synonym floatFmt = "floatKind \<Rightarrow> rat \<Rightarrow> string"

text \<open>The two numbers met most: an \<^verbatim>\<open>int\<close>, and the \<^verbatim>\<open>float64\<close> of decoded JSON.\<close>

abbreviation VInt :: "int \<Rightarrow> val" where
  "VInt \<equiv> VInteger GoInt"

abbreviation VFloat :: "rat \<Rightarrow> val" where
  "VFloat \<equiv> VFloating GoFloat64"

text \<open>The Go type of a number; \<open>None\<close> for a value that is not a number.\<close>

fun numericType :: "val \<Rightarrow> (intKind + floatKind) option" where
  "numericType (VInteger k i) = Some (Inl k)"
| "numericType (VFloating k x) = Some (Inr k)"
| "numericType _ = None"

type_synonym row = "(string \<times> val) list"

text \<open>\<^verbatim>\<open>row[k]\<close>: the value of a column, nil when the column is missing.\<close>

definition lookupCol :: "row \<Rightarrow> string \<Rightarrow> val" where
  "lookupCol row k = (case map_of row k of Some v \<Rightarrow> v | None \<Rightarrow> VNil)"

subsection \<open>\<^verbatim>\<open>fmt.Sprintf("%v", v)\<close>\<close>

text \<open>
  The default format of the standard library on the values above: \<^verbatim>\<open><nil>\<close>, \<^verbatim>\<open>true\<close>,
  \<^verbatim>\<open>false\<close>, an integer in decimal, a string as it is, a slice as \<^verbatim>\<open>[a b c]\<close>, a map as
  \<^verbatim>\<open>map[k1:v1 k2:v2]\<close> with the keys sorted. The shortest-decimal rendering of a
  floating-point number, which depends on its type, is not modelled: it is the parameter
  \<open>ff\<close> of every function that formats a value.
\<close>

definition digitChar :: "nat \<Rightarrow> char" where
  "digitChar d = ''0123456789'' ! d"

function showNat :: "nat \<Rightarrow> string" where
  "showNat n = (if n < 10 then [digitChar n] else showNat (n div 10) @ [digitChar (n mod 10)])"
  by pat_completeness auto
termination
  by (relation "measure id") auto

declare showNat.simps [simp del]

definition showInt :: "int \<Rightarrow> string" where
  "showInt i = (if i < 0 then CHR ''-'' # showNat (nat (- i)) else showNat (nat i))"

fun joinWith :: "string \<Rightarrow> string list \<Rightarrow> string" where
  "joinWith sep [] = []"
| "joinWith sep [s] = s"
| "joinWith sep (s # t # ss) = s @ sep @ joinWith sep (t # ss)"

lemma size_map_of_val:
  "map_of m k = Some v \<Longrightarrow> size v < Suc (size_list (size_prod (\<lambda>_. 0) size) m)"
  by (induction m) (auto split: if_splits)

function sprintv :: "floatFmt \<Rightarrow> val \<Rightarrow> string" where
  "sprintv ff VNil = ''<nil>''"
| "sprintv ff (VBool b) = (if b then ''true'' else ''false'')"
| "sprintv ff (VInteger k i) = showInt i"
| "sprintv ff (VFloating k x) = ff k x"
| "sprintv ff (VStr s) = s"
| "sprintv ff (VList xs) = ''['' @ joinWith '' '' (map (sprintv ff) xs) @ '']''"
| "sprintv ff (VMap m) =
     ''map['' @ joinWith '' ''
        (map (\<lambda>k. k @ '':'' @ (case map_of m k of Some v \<Rightarrow> sprintv ff v | None \<Rightarrow> ''<nil>''))
             (sort (remdups (map fst m)))) @ '']''"
  by pat_completeness auto
termination
  apply (relation "measure (\<lambda>(ff, v). size v)")
    apply simp
   apply (auto simp: less_Suc_eq_le size_list_estimation' dest: size_map_of_val)
  done

subsection \<open>\<^verbatim>\<open>reflect.DeepEqual\<close>\<close>

text \<open>
  Values of different dynamic types are never deeply equal, two numbers of different Go
  types included; scalars of one type are compared by \<^verbatim>\<open>==\<close>, slices element by element,
  maps by their size and then key by key.
\<close>

function (sequential) deepEqual :: "val \<Rightarrow> val \<Rightarrow> bool" where
  "deepEqual VNil VNil = True"
| "deepEqual (VBool a) (VBool b) = (a = b)"
| "deepEqual (VInteger k a) (VInteger l b) = (k = l \<and> a = b)"
| "deepEqual (VFloating k a) (VFloating l b) = (k = l \<and> a = b)"
| "deepEqual (VStr a) (VStr b) = (a = b)"
| "deepEqual (VList xs) (VList ys) = list_all2 deepEqual xs ys"
| "deepEqual (VMap m1) (VMap m2) =
     (length (remdups (map fst m1)) = length (remdups (map fst m2)) \<and>
      list_all (\<lambda>k. case map_of m1 k of
                        None \<Rightarrow> False
                      | Some v1 \<Rightarrow> (case map_of m2 k of None \<Rightarrow> False | Some v2 \<Rightarrow> deepEqual v1 v2))
               (map fst m1))"
| "deepEqual _ _ = False"
  by pat_completeness auto
termination
  apply (relation "measure (\<lambda>(v, w). size v)")
    apply simp
   apply (auto simp: less_Suc_eq_le size_list_estimation' dest: size_map_of_val)
  done

subsection \<open>Canonical listings\<close>

text \<open>
  An association list names the entries of a map in some order. A value is listed
  canonically when every map in it is listed once per key, in ascending order of the
  keys.
\<close>

fun canonical :: "val \<Rightarrow> bool" where
  "canonical (VList xs) = list_all canonical xs"
| "canonical (VMap m) =
     (sorted (map fst m) \<and> distinct (map fst m) \<and> list_all canonical (map snd m))"
| "canonical _ = True"

section \<open>The diff engine\<close>

record UpdatedRow =
  PrimaryKey :: row
  Before :: row
  After :: row

record TableDiff =
  TableName :: string
  Inserted :: "row list"
  Updated :: "UpdatedRow list"
  Deleted :: "row list"

subsection \<open>generateRowKey\<close>

text \<open>
  The \<^verbatim>\<open>id\<close> column's rendering when the row has one; otherwise the columns are
  collected, sorted, and \<^verbatim>\<open>k:v;\<close> is appended for each.
\<close>

definition generateRowKey :: "floatFmt \<Rightarrow> row \<Rightarrow> string" where
  "generateRowKey ff row =
     (case map_of row ''id'' of
        Some id' \<Rightarrow> sprintv ff id'
      | None \<Rightarrow>
          (let keys = sort (remdups (map fst row))
           in fold (\<lambda>k key. key @ (k @ '':'' @ sprintv ff (lookupCol row k) @ '';'')) keys []))"

subsection \<open>rowsEqual\<close>

text \<open>
  Two loops, each leaving with \<^verbatim>\<open>false\<close> at the first offending column: the columns of
  \<open>row1\<close> that are not ignored must be in \<open>row2\<close> with a deeply equal value, and the
  columns of \<open>row2\<close> that are not ignored must be in \<open>row1\<close>. The set of ignored
  columns is a \<^verbatim>\<open>map[string]bool\<close>, read with \<^verbatim>\<open>ignoreColumns[key]\<close>: a function to
  \<open>bool\<close>.
\<close>

definition rowsEqual :: "row \<Rightarrow> row \<Rightarrow> (string \<Rightarrow> bool) \<Rightarrow> bool" where
  "rowsEqual row1 row2 ignoreColumns =
     (list_all (\<lambda>key.
          if ignoreColumns key then True
          else (case map_of row2 key of
                  None \<Rightarrow> False
                | Some val2 \<Rightarrow> deepEqual (lookupCol row1 key) val2))
        (map fst row1) \<and>
      list_all (\<lambda>key.
          if ignoreColumns key then True
          else (case map_of row1 key of None \<Rightarrow> False | Some _ \<Rightarrow> True))
        (map fst row2))"

subsection \<open>extractPrimaryKey and filterIgnoredColumns\<close>

definition extractPrimaryKey :: "row \<Rightarrow> row" where
  "extractPrimaryKey row =
     (case map_of row ''id'' of
        Some id' \<Rightarrow> [(''id'', id')]
      | None \<Rightarrow> row)"

definition filterIgnoredColumns :: "row \<Rightarrow> (string \<Rightarrow> bool) \<Rightarrow> row" where
  "filterIgnoredColumns row ignoreColumns = filter (\<lambda>(key, value). \<not> ignoreColumns key) row"

subsection \<open>Ranging over a map\<close>

text \<open>
  \<^verbatim>\<open>for key, row := range m\<close> visits every entry of the map once, in an order the Go
  runtime chooses afresh for each loop. The choices the runtime makes are an argument
  of the model: a list of numbers, the next one selecting which of the entries not yet
  visited comes next.
\<close>

fun rangeMap :: "nat list \<Rightarrow> 'a list \<Rightarrow> 'a list" where
  "rangeMap cs [] = []"
| "rangeMap [] (e # es) = e # es"
| "rangeMap (c # cs) (e # es) =
     (let i = c mod length (e # es)
      in (e # es) ! i # rangeMap cs (take i (e # es) @ drop (Suc i) (e # es)))"

text \<open>The choices of the three loops of compareRows.\<close>

record schedule =
  insertedOrder :: "nat list"
  deletedOrder :: "nat list"
  updatedOrder :: "nat list"

subsection \<open>compareRows\<close>

text \<open>
  The first two loops: \<^verbatim>\<open>m[key] = row\<close> for every row, a later row replacing an earlier
  one with the same key.
\<close>

definition keyMap :: "floatFmt \<Rightarrow> row list \<Rightarrow> (string \<times> row) list" where
  "keyMap ff rows = fold (\<lambda>row m. AList.update (generateRowKey ff row) row m) rows []"

text \<open>The error compareRows returns is always nil: the model returns the TableDiff.\<close>

definition compareRows ::
  "floatFmt \<Rightarrow> schedule \<Rightarrow> string \<Rightarrow> row list \<Rightarrow> row list \<Rightarrow> (string \<Rightarrow> bool) \<Rightarrow> TableDiff"
where
  "compareRows ff sch tableName fromRows toRows ignoreColumns =
     (let fromMap = keyMap ff fromRows;
          toMap = keyMap ff toRows;
          inserted = concat (map (\<lambda>(key, row).
                         if map_of fromMap key = None then [row] else [])
                       (rangeMap (insertedOrder sch) toMap));
          deleted = concat (map (\<lambda>(key, row).
                         if map_of toMap key = None then [row] else [])
                       (rangeMap (deletedOrder sch) fromMap));
          updated = concat (map (\<lambda>(key, fromRow).
                         case map_of toMap key of
                           None \<Rightarrow> []
                         | Some toRow \<Rightarrow>
                             if \<not> rowsEqual fromRow toRow ignoreColumns
                             then [\<lparr>PrimaryKey = extractPrimaryKey fromRow,
                                    Before = filterIgnoredColumns fromRow ignoreColumns,
                                    After = filterIgnoredColumns toRow ignoreColumns\<rparr>]
                             else [])
                       (rangeMap (updatedOrder sch) fromMap))
      in \<lparr>TableName = tableName, Inserted = inserted, Updated = updated, Deleted = deleted\<rparr>)"


section \<open>The aggregator\<close>

text \<open>
  What Run reads of its options (the other fields of \<^verbatim>\<open>Options\<close> belong to the
  formatter).
\<close>

record Options =
  From :: string
  To :: string
  Tables :: "string list"
  IgnoreColumns :: "string list"
  OnlyChanged :: bool
  BaseDir :: string

text \<open>
  The snapshot store, by what it answers: \<^verbatim>\<open>ListSnapshotTables(label)\<close> and
  \<^verbatim>\<open>LoadSnapshot(label, tableName, FormatJSON)\<close>, \<open>None\<close> when they return an error.
  \<^verbatim>\<open>storage.NewStorage(baseDir)\<close> is the argument \<open>newStorage\<close> of Run.
\<close>

record Storage =
  ListSnapshotTables :: "string \<Rightarrow> string list option"
  LoadSnapshot :: "string \<Rightarrow> string \<Rightarrow> val option"

datatype error = CreateStorageFailed | ListFromFailed | ListToFailed

text \<open>\<^verbatim>\<open>Result.Tables\<close>, a map from table name to TableDiff.\<close>

type_synonym Result = "(string \<times> TableDiff) list"

text \<open>
  convertToMapSlice: nil gives no rows, a slice gives its elements that are maps, anything
  else gives no rows. (Decoded JSON is never a \<^verbatim>\<open>[]map[string]any\<close>, the second case
  of the source.)
\<close>

definition convertToMapSlice :: "val \<Rightarrow> row list" where
  "convertToMapSlice data =
     (case data of
        VNil \<Rightarrow> []
      | VList rows \<Rightarrow> concat (map (\<lambda>row. case row of VMap rowMap \<Rightarrow> [rowMap] | _ \<Rightarrow> []) rows)
      | _ \<Rightarrow> [])"

text \<open>
  The table set: the filter when it is not empty, otherwise the names of both snapshots,
  collected in a map and sorted.
\<close>

definition resolveTables :: "Storage \<Rightarrow> Options \<Rightarrow> error + string list" where
  "resolveTables store opts =
     (if length (Tables opts) > 0 then Inr (Tables opts)
      else (case ListSnapshotTables store (From opts) of
              None \<Rightarrow> Inl ListFromFailed
            | Some fromTables \<Rightarrow>
                (case ListSnapshotTables store (To opts) of
                   None \<Rightarrow> Inl ListToFailed
                 | Some toTables \<Rightarrow> Inr (sort (remdups (fromTables @ toTables))))))"

text \<open>
  One turn of the loop over the tables. A snapshot that fails to load counts as an empty
  one. \<open>sched\<close> gives the map iteration choices of the table's compareRows call.
\<close>

definition diffTable ::
  "floatFmt \<Rightarrow> (string \<Rightarrow> schedule) \<Rightarrow> Storage \<Rightarrow> Options \<Rightarrow> string \<Rightarrow> Result \<Rightarrow> Result"
where
  "diffTable ff sched store opts tableName result =
     (let ignoreColumnsMap = (\<lambda>col. col \<in> set (IgnoreColumns opts));
          fromData = (case LoadSnapshot store (From opts) tableName of
                        None \<Rightarrow> VList []
                      | Some data \<Rightarrow> data);
          toData = (case LoadSnapshot store (To opts) tableName of
                      None \<Rightarrow> VList []
                    | Some data \<Rightarrow> data);
          fromRows = convertToMapSlice fromData;
          toRows = convertToMapSlice toData;
          tableDiff = compareRows ff (sched tableName) tableName fromRows toRows ignoreColumnsMap
      in if OnlyChanged opts \<and> length (Inserted tableDiff) = 0 \<and>
            length (Updated tableDiff) = 0 \<and> length (Deleted tableDiff) = 0
         then result
         else AList.update tableName tableDiff result)"

definition Run ::
  "floatFmt \<Rightarrow> (string \<Rightarrow> schedule) \<Rightarrow> (string \<Rightarrow> Storage option) \<Rightarrow> Options
     \<Rightarrow> error + Result"
where
  "Run ff sched newStorage opts =
     (case newStorage (BaseDir opts) of
        None \<Rightarrow> Inl CreateStorageFailed
      | Some store \<Rightarrow>
          (case resolveTables store opts of
             Inl err \<Rightarrow> Inl err
           | Inr tables \<Rightarrow> Inr (fold (diffTable ff sched store opts) tables [])))"

section \<open>The assert command\<close>

text \<open>
  The canonical shape of one table: a bucket is entered only when it is not empty.
\<close>

definition tableMapOf :: "TableDiff \<Rightarrow> row" where
  "tableMapOf tableDiff =
     (let tableMap = [];
          tableMap = (if length (Inserted tableDiff) > 0
                      then AList.update ''inserted'' (VList (map VMap (Inserted tableDiff))) tableMap
                      else tableMap);
          tableMap = (if length (Updated tableDiff) > 0
                      then AList.update ''updated''
                             (VList (map (\<lambda>row. VMap [(''primary_key'', VMap (PrimaryKey row)),
                                                       (''before'', VMap (Before row)),
                                                       (''after'', VMap (After row))])
                                         (Updated tableDiff))) tableMap
                      else tableMap);
          tableMap = (if length (Deleted tableDiff) > 0
                      then AList.update ''deleted'' (VList (map VMap (Deleted tableDiff))) tableMap
                      else tableMap)
      in tableMap)"

text \<open>
  The loop over \<^verbatim>\<open>result.Tables\<close>, a map again: \<open>cs\<close> are the choices of its iteration.
\<close>

definition resultMapOf :: "nat list \<Rightarrow> Result \<Rightarrow> row" where
  "resultMapOf cs tables =
     fold (\<lambda>(tableName, tableDiff) resultMap.
             let tableMap = tableMapOf tableDiff
             in if length tableMap > 0 then AList.update tableName (VMap tableMap) resultMap
                else resultMap)
          (rangeMap cs tables) []"

text \<open>
  compareJSON. \<^verbatim>\<open>json.Marshal\<close> is the parameter \<open>marshal\<close>, \<open>None\<close> when it returns an
  error.
\<close>

definition compareJSON :: "(val \<Rightarrow> string option) \<Rightarrow> val \<Rightarrow> val \<Rightarrow> bool" where
  "compareJSON marshal expected actual =
     (case marshal expected of
        None \<Rightarrow> False
      | Some expectedJSON \<Rightarrow>
          (case marshal actual of
             None \<Rightarrow> False
           | Some actualJSON \<Rightarrow> expectedJSON = actualJSON))"

datatype assertError =
    FromToRequired
  | ExpectedRequired
  | RunFailed error
  | ReadFailed
  | ParseFailed
  | Mismatch

text \<open>
  runAssertCmd. The options and the name of the expected file, globals of the command,
  are arguments; \<open>readFile\<close> is \<^verbatim>\<open>os.ReadFile\<close> and \<open>unmarshal\<close> is \<^verbatim>\<open>json.Unmarshal\<close>
  into a \<^verbatim>\<open>map[string]any\<close>, each \<open>None\<close> on an error.
\<close>

definition runAssertCmd ::
  "floatFmt \<Rightarrow> (string \<Rightarrow> schedule) \<Rightarrow> (string \<Rightarrow> Storage option) \<Rightarrow>
   (val \<Rightarrow> string option) \<Rightarrow> (string \<Rightarrow> string option) \<Rightarrow> (string \<Rightarrow> val option) \<Rightarrow> nat list
     \<Rightarrow> Options \<Rightarrow> string \<Rightarrow> assertError + unit"
where
  "runAssertCmd ff sched newStorage marshal readFile unmarshal cs opts expectedFile =
     (if From opts = [] \<or> To opts = [] then Inl FromToRequired
      else if expectedFile = [] then Inl ExpectedRequired
      else (case Run ff sched newStorage opts of
              Inl err \<Rightarrow> Inl (RunFailed err)
            | Inr result \<Rightarrow>
                (case readFile expectedFile of
                   None \<Rightarrow> Inl ReadFailed
                 | Some expectedData \<Rightarrow>
                     (case unmarshal expectedData of
                        None \<Rightarrow> Inl ParseFailed
                      | Some expected \<Rightarrow>
                          if \<not> compareJSON marshal expected (VMap (resultMapOf cs result))
                          then Inl Mismatch
                          else Inr ()))))"

section \<open>Results up to the order of visiting\<close>

text \<open>
  Two TableDiffs that name the same table and hold the same inserted rows, the same
  updated rows and the same deleted rows, each as often in one as in the other.
\<close>

definition sameElements :: "TableDiff \<Rightarrow> TableDiff \<Rightarrow> bool" where
  "sameElements d d' =
     (TableName d = TableName d' \<and>
      mset (Inserted d) = mset (Inserted d') \<and>
      mset (Updated d) = mset (Updated d') \<and>
      mset (Deleted d) = mset (Deleted d'))"

section \<open>Examples\<close>

text \<open>
  The scenario of the specification: two rows before, of which one is changed and one
  removed, and a new row after. The schedule lets every loop visit its map in the order
  the entries were stored.
\<close>

definition exampleFrom :: "row list" where
  "exampleFrom =
     [[(''id'', VInt 1), (''name'', VStr ''a'')], [(''id'', VInt 2), (''name'', VStr ''b'')]]"

definition exampleTo :: "row list" where
  "exampleTo =
     [[(''id'', VInt 1), (''name'', VStr ''a2'')], [(''id'', VInt 3), (''name'', VStr ''c'')]]"

definition inOrder :: schedule where
  "inOrder = \<lparr>insertedOrder = [], deletedOrder = [], updatedOrder = []\<rparr>"

text \<open>
  A float rendering for the examples: the digits of a whole number, which is what Go
  prints for a floating-point number that is a whole number of magnitude below a million.
\<close>

definition wholeFloat :: floatFmt where
  "wholeFloat k x = showInt \<lfloor>x\<rfloor>"

text \<open>
  A store with two snapshots: \<^verbatim>\<open>pre\<close> has an empty table \<^verbatim>\<open>logs\<close>, \<^verbatim>\<open>post\<close> has it too
  and a table \<^verbatim>\<open>users\<close> with one row. The serializer of the examples renders a value as
  \<^verbatim>\<open>%v\<close> does.
\<close>

definition exampleStorage :: Storage where
  "exampleStorage =
     \<lparr>ListSnapshotTables = (\<lambda>label. if label = ''pre'' then Some [''logs''] else Some [''users'', ''logs'']),
      LoadSnapshot = (\<lambda>label table.
         if label = ''post'' \<and> table = ''users'' then Some (VList [VMap [(''id'', VFloat 3)]])
         else if table = ''logs'' then Some (VList [])
         else None)\<rparr>"

definition exampleOptions :: Options where
  "exampleOptions =
     \<lparr>From = ''pre'', To = ''post'', Tables = [], IgnoreColumns = [], OnlyChanged = False,
      BaseDir = ''.snapdiff''\<rparr>"

definition exampleMarshal :: "val \<Rightarrow> string option" where
  "exampleMarshal v = Some (sprintv wholeFloat v)"

text \<open>
  A store whose snapshot \<^verbatim>\<open>post\<close> has a table \<^verbatim>\<open>users\<close> with two rows that snapshot
  \<^verbatim>\<open>pre\<close> does not have, and the expected changes that list the two rows in the order
  of the snapshot.
\<close>

definition newRowsStorage :: Storage where
  "newRowsStorage =
     \<lparr>ListSnapshotTables = (\<lambda>label. if label = ''pre'' then Some [] else Some [''users'']),
      LoadSnapshot = (\<lambda>label table.
         if label = ''post'' \<and> table = ''users''
         then Some (VList [VMap [(''id'', VFloat 1), (''name'', VStr ''a2'')],
                           VMap [(''id'', VFloat 3), (''name'', VStr ''c'')]])
         else None)\<rparr>"

definition newRowsExpected :: val where
  "newRowsExpected =
     VMap [(''users'', VMap [(''inserted'',
        VList [VMap [(''id'', VFloat 1), (''name'', VStr ''a2'')],
               VMap [(''id'', VFloat 3), (''name'', VStr ''c'')]])])]"

section \<open>Properties of the parts\<close>

lemma column_has_value: "key \<in> set (map fst r) \<Longrightarrow> \<exists>v. map_of r key = Some v"
  by (induction r) auto

lemma deepEqual_refl: "deepEqual v v"
proof (induction v)
  case (VList xs)
  then show ?case by (simp add: list_all2_same)
next
  case (VMap m)
  have "list_all (\<lambda>k. case map_of m k of
                        None \<Rightarrow> False
                      | Some v1 \<Rightarrow> (case map_of m k of None \<Rightarrow> False | Some v2 \<Rightarrow> deepEqual v1 v2))
               (map fst m)"
    unfolding list_all_iff
  proof
    fix k assume "k \<in> set (map fst m)"
    from column_has_value[OF this] obtain v where v: "map_of m k = Some v" ..
    then have "(k, v) \<in> set m" by (rule map_of_SomeD)
    then have "deepEqual v v" using VMap by (auto simp: snds.simps)
    with v show "case map_of m k of None \<Rightarrow> False
          | Some v1 \<Rightarrow> (case map_of m k of None \<Rightarrow> False | Some v2 \<Rightarrow> deepEqual v1 v2)"
      by simp
  qed
  then show ?case by simp
qed simp_all

lemma mset_rangeMap: "mset (rangeMap cs es) = mset es"
proof (induction cs es rule: rangeMap.induct)
  case (3 c cs e es)
  let ?xs = "e # es"
  let ?i = "c mod length ?xs"
  have i: "?i < length ?xs" by simp
  have "mset (rangeMap (c # cs) ?xs) = add_mset (?xs ! ?i) (mset (take ?i ?xs @ drop (Suc ?i) ?xs))"
    using 3 by (simp add: Let_def del: take_Cons' drop_Cons' nth_Cons' mset_append)
  also have "\<dots> = mset (take ?i ?xs @ ?xs ! ?i # drop (Suc ?i) ?xs)" by simp
  also have "\<dots> = mset ?xs" using i by (simp only: id_take_nth_drop [symmetric])
  finally show ?case .
qed simp_all

text \<open>Every order of the entries is the order of some choices.\<close>

lemma rangeMap_any_order:
  assumes "mset ys = mset es"
  shows "\<exists>cs. rangeMap cs es = ys"
  using assms
proof (induction ys arbitrary: es)
  case Nil
  then have "es = []" by simp
  then have "rangeMap [] es = []" by simp
  then show ?case ..
next
  case (Cons y ys)
  from Cons.prems have "y \<in> set es"
    by (metis list.set_intros(1) set_mset_mset)
  then obtain i where i: "i < length es" and y: "es ! i = y"
    by (auto simp: in_set_conv_nth)
  let ?rest = "take i es @ drop (Suc i) es"
  have "es = take i es @ y # drop (Suc i) es"
    using id_take_nth_drop[OF i] y by simp
  then have "mset es = add_mset y (mset ?rest)"
    by (metis mset.simps(2) mset_append union_mset_add_mset_right)
  with Cons.prems have "mset ys = mset ?rest" by simp
  from Cons.IH[OF this] obtain cs where cs: "rangeMap cs ?rest = ys" ..
  from i obtain e es' where es: "es = e # es'" by (cases es) auto
  have "i mod length (e # es') = i" using i es by simp
  then have "rangeMap (i # cs) (e # es') =
      (e # es') ! i # rangeMap cs (take i (e # es') @ drop (Suc i) (e # es'))"
    by (simp only: rangeMap.simps Let_def)
  with y cs have "rangeMap (i # cs) es = y # ys" unfolding es by simp
  then show ?case ..
qed

lemma set_rangeMap: "set (rangeMap cs es) = set es"
  by (metis mset_rangeMap set_mset_mset)

lemma distinct_fst_rangeMap: "distinct (map fst (rangeMap cs es)) = distinct (map fst es)"
  by (metis mset_rangeMap mset_map mset_eq_imp_distinct_iff)

lemma keyMap_fold_distinct:
  "distinct (map fst m) \<Longrightarrow>
   distinct (map fst (fold (\<lambda>row m. AList.update (generateRowKey ff row) row m) rows m))"
  by (induction rows arbitrary: m) (simp_all add: distinct_update)

lemma distinct_keyMap: "distinct (map fst (keyMap ff rows))"
  by (simp add: keyMap_def keyMap_fold_distinct)

lemma keyMap_fold_lookup:
  "map_of (fold (\<lambda>row m. AList.update (generateRowKey ff row) row m) rows m) k =
     (case filter (\<lambda>r. generateRowKey ff r = k) rows of
        [] \<Rightarrow> map_of m k
      | r # rs \<Rightarrow> Some (last (r # rs)))"
proof (induction rows arbitrary: m)
  case Nil
  then show ?case by simp
next
  case (Cons a rows)
  show ?case
    by (simp add: Cons update_conv' split: list.splits)
qed

lemma keyMap_lookup:
  "map_of (keyMap ff rows) k =
     (case filter (\<lambda>r. generateRowKey ff r = k) rows of
        [] \<Rightarrow> None
      | r # rs \<Rightarrow> Some (last (r # rs)))"
  by (simp add: keyMap_def keyMap_fold_lookup split: list.splits)

lemma keyMap_lookup_SomeD:
  assumes "map_of (keyMap ff rows) k = Some r"
  shows "generateRowKey ff r = k" and "r \<in> set rows"
proof -
  let ?fs = "filter (\<lambda>r. generateRowKey ff r = k) rows"
  from assms have ne: "?fs \<noteq> []" and r: "r = last ?fs"
    by (auto simp: keyMap_lookup split: list.splits)
  then have "r \<in> set ?fs" using last_in_set by blast
  then show "generateRowKey ff r = k" and "r \<in> set rows" by auto
qed

lemma keyMap_entry:
  "(k, r) \<in> set (keyMap ff rows) \<longleftrightarrow> map_of (keyMap ff rows) k = Some r"
  using distinct_keyMap by (auto simp: map_of_eq_Some_iff)

lemma keyMap_dom:
  "r \<in> set rows \<Longrightarrow> map_of (keyMap ff rows) (generateRowKey ff r) \<noteq> None"
  by (auto simp: keyMap_lookup filter_empty_conv split: list.splits)

lemma map_of_filterIgnoredColumns:
  "map_of (filterIgnoredColumns row ign) c = (if ign c then None else map_of row c)"
  unfolding filterIgnoredColumns_def
  by (induction row) auto

lemma generateRowKey_extractPrimaryKey:
  "generateRowKey ff (extractPrimaryKey row) = generateRowKey ff row"
  by (cases "map_of row ''id''") (simp_all add: extractPrimaryKey_def generateRowKey_def)


lemma rowsEqual_refl: "rowsEqual r r (\<lambda>_. False)"
  unfolding rowsEqual_def list_all_iff
proof (intro conjI ballI)
  fix key assume "key \<in> set (map fst r)"
  from column_has_value[OF this] obtain v where "map_of r key = Some v" ..
  then show "if False then True
      else (case map_of r key of None \<Rightarrow> False | Some val2 \<Rightarrow> deepEqual (lookupCol r key) val2)"
    by (simp add: lookupCol_def deepEqual_refl)
next
  fix key assume "key \<in> set (map fst r)"
  from column_has_value[OF this] obtain v where "map_of r key = Some v" ..
  then show "if False then True else (case map_of r key of None \<Rightarrow> False | Some _ \<Rightarrow> True)"
    by simp
qed

lemma rowsEqual_differ:
  assumes "\<not> rowsEqual r1 r2 ign"
  shows "\<exists>c. \<not> ign c \<and> map_of r1 c \<noteq> map_of r2 c"
proof -
  let ?P1 = "\<lambda>key. if ign key then True
      else (case map_of r2 key of None \<Rightarrow> False | Some val2 \<Rightarrow> deepEqual (lookupCol r1 key) val2)"
  let ?P2 = "\<lambda>key. if ign key then True
      else (case map_of r1 key of None \<Rightarrow> False | Some _ \<Rightarrow> True)"
  from assms have "\<not> list_all ?P1 (map fst r1) \<or> \<not> list_all ?P2 (map fst r2)"
    unfolding rowsEqual_def by blast
  then consider (a) key where "key \<in> set (map fst r1)" "\<not> ?P1 key"
    | (b) key where "key \<in> set (map fst r2)" "\<not> ?P2 key"
    unfolding list_all_iff by blast
  then show ?thesis
  proof cases
    case a
    from a(2) have ni: "\<not> ign key" by (cases "ign key") simp_all
    from column_has_value[OF a(1)] obtain v1 where v1: "map_of r1 key = Some v1" ..
    show ?thesis
    proof (cases "map_of r2 key")
      case None
      with v1 have "map_of r1 key \<noteq> map_of r2 key" by simp
      with ni show ?thesis by blast
    next
      case (Some v2)
      with a(2) ni v1 have "\<not> deepEqual v1 v2" by (simp add: lookupCol_def)
      then have "v1 \<noteq> v2" using deepEqual_refl by blast
      with v1 Some have "map_of r1 key \<noteq> map_of r2 key" by simp
      with ni show ?thesis by blast
    qed
  next
    case b
    from b(2) have ni: "\<not> ign key" by (cases "ign key") simp_all
    from b(2) ni have none: "map_of r1 key = None" by (cases "map_of r1 key") simp_all
    from column_has_value[OF b(1)] obtain v2 where "map_of r2 key = Some v2" ..
    with none have "map_of r1 key \<noteq> map_of r2 key" by simp
    with ni show ?thesis by blast
  qed
qed

text \<open>Selecting from a concatenation by a key that each block carries.\<close>

lemma filter_concat_by_key:
  assumes "distinct (map fst es)"
    and "(k, r) \<in> set es"
    and "\<And>k' r' u. (k', r') \<in> set es \<Longrightarrow> u \<in> set (emit (k', r')) \<Longrightarrow> keyOf u = k'"
  shows "filter (\<lambda>u. keyOf u = k) (concat (map emit es)) = emit (k, r)"
  using assms
proof (induction es)
  case Nil
  then show ?case by simp
next
  case (Cons e es)
  obtain k' r' where e: "e = (k', r')" by (cases e)
  show ?case
  proof (cases "k' = k")
    case True
    with Cons.prems e have r: "r' = r" by (auto simp: rev_image_eqI)
    have here: "filter (\<lambda>u. keyOf u = k) (emit (k, r)) = emit (k, r)"
      using Cons.prems(3)[of k r] e True r by (auto simp: filter_id_conv)
    have "\<And>u. u \<in> set (concat (map emit es)) \<Longrightarrow> keyOf u \<noteq> k"
    proof -
      fix u assume "u \<in> set (concat (map emit es))"
      then obtain k2 r2 where in2: "(k2, r2) \<in> set es" and u: "u \<in> set (emit (k2, r2))" by auto
      then have "keyOf u = k2" using Cons.prems(3) by auto
      moreover have "k2 \<noteq> k" using in2 Cons.prems(1) e True by (auto simp: rev_image_eqI)
      ultimately show "keyOf u \<noteq> k" by simp
    qed
    then have rest: "filter (\<lambda>u. keyOf u = k) (concat (map emit es)) = []"
      by (auto simp: filter_empty_conv)
    show ?thesis using e True r here rest by simp
  next
    case False
    have "\<And>u. u \<in> set (emit e) \<Longrightarrow> keyOf u \<noteq> k"
      using Cons.prems(3)[of k' r'] e False by auto
    then have here: "filter (\<lambda>u. keyOf u = k) (emit e) = []"
      by (auto simp: filter_empty_conv)
    have "filter (\<lambda>u. keyOf u = k) (concat (map emit es)) = emit (k, r)"
      using Cons.IH Cons.prems e False by auto
    then show ?thesis using here by simp
  qed
qed

lemma keyMap_entry_key: "(k, r) \<in> set (keyMap ff rows) \<Longrightarrow> generateRowKey ff r = k"
  using keyMap_entry keyMap_lookup_SomeD(1) by fastforce

lemma keys_of_concat:
  assumes "\<And>e. e \<in> set es \<Longrightarrow> map keyOf (emit e) = (if Q e then [fst e] else [])"
  shows "map keyOf (concat (map emit es)) = map fst (filter Q es)"
  using assms by (induction es) auto

lemma Inserted_keys:
  "map (generateRowKey ff) (Inserted (compareRows ff sch tn fromRows toRows ign)) =
   map fst (filter (\<lambda>e. map_of (keyMap ff fromRows) (fst e) = None)
                   (rangeMap (insertedOrder sch) (keyMap ff toRows)))"
proof -
  have "map (generateRowKey ff) (case e of (key, row) \<Rightarrow>
            if map_of (keyMap ff fromRows) key = None then [row] else []) =
        (if map_of (keyMap ff fromRows) (fst e) = None then [fst e] else [])"
    if "e \<in> set (rangeMap (insertedOrder sch) (keyMap ff toRows))" for e
  proof -
    obtain k r where e: "e = (k, r)" by (cases e)
    with that have "(k, r) \<in> set (keyMap ff toRows)" by (simp add: set_rangeMap)
    then have "generateRowKey ff r = k" by (rule keyMap_entry_key)
    with e show ?thesis by simp
  qed
  then show ?thesis
    by (simp add: compareRows_def Let_def keys_of_concat)
qed

lemma Deleted_keys:
  "map (generateRowKey ff) (Deleted (compareRows ff sch tn fromRows toRows ign)) =
   map fst (filter (\<lambda>e. map_of (keyMap ff toRows) (fst e) = None)
                   (rangeMap (deletedOrder sch) (keyMap ff fromRows)))"
proof -
  have "map (generateRowKey ff) (case e of (key, row) \<Rightarrow>
            if map_of (keyMap ff toRows) key = None then [row] else []) =
        (if map_of (keyMap ff toRows) (fst e) = None then [fst e] else [])"
    if "e \<in> set (rangeMap (deletedOrder sch) (keyMap ff fromRows))" for e
  proof -
    obtain k r where e: "e = (k, r)" by (cases e)
    with that have "(k, r) \<in> set (keyMap ff fromRows)" by (simp add: set_rangeMap)
    then have "generateRowKey ff r = k" by (rule keyMap_entry_key)
    with e show ?thesis by simp
  qed
  then show ?thesis
    by (simp add: compareRows_def Let_def keys_of_concat)
qed

lemma Updated_keys:
  "map (\<lambda>u. generateRowKey ff (PrimaryKey u)) (Updated (compareRows ff sch tn fromRows toRows ign)) =
   map fst (filter (\<lambda>e. case map_of (keyMap ff toRows) (fst e) of
                           None \<Rightarrow> False
                         | Some toRow \<Rightarrow> \<not> rowsEqual (snd e) toRow ign)
                   (rangeMap (updatedOrder sch) (keyMap ff fromRows)))"
proof -
  have "map (\<lambda>u. generateRowKey ff (PrimaryKey u)) (case e of (key, fromRow) \<Rightarrow>
            case map_of (keyMap ff toRows) key of
              None \<Rightarrow> []
            | Some toRow \<Rightarrow>
                if \<not> rowsEqual fromRow toRow ign
                then [\<lparr>PrimaryKey = extractPrimaryKey fromRow,
                       Before = filterIgnoredColumns fromRow ign,
                       After = filterIgnoredColumns toRow ign\<rparr>]
                else []) =
        (if (case map_of (keyMap ff toRows) (fst e) of
               None \<Rightarrow> False
             | Some toRow \<Rightarrow> \<not> rowsEqual (snd e) toRow ign) then [fst e] else [])"
    if "e \<in> set (rangeMap (updatedOrder sch) (keyMap ff fromRows))" for e
  proof -
    obtain k r where e: "e = (k, r)" by (cases e)
    with that have "(k, r) \<in> set (keyMap ff fromRows)" by (simp add: set_rangeMap)
    then have "generateRowKey ff r = k" by (rule keyMap_entry_key)
    with e show ?thesis
      by (cases "map_of (keyMap ff toRows) k") (simp_all add: generateRowKey_extractPrimaryKey)
  qed
  then show ?thesis
    by (simp add: compareRows_def Let_def keys_of_concat)
qed

lemma distinct_fst_filter_range:
  "distinct (map fst (filter Q (rangeMap cs (keyMap ff rows))))"
  by (simp add: distinct_map_filter distinct_fst_rangeMap distinct_keyMap)

lemma fst_in_keyMap: "k \<in> fst ` set (keyMap ff rows) \<longleftrightarrow> map_of (keyMap ff rows) k \<noteq> None"
  by (metis domIff dom_map_of_conv_image_fst)


lemma Updated_for_key:
  assumes f: "map_of (keyMap ff fromRows) k = Some r1"
    and t: "map_of (keyMap ff toRows) k = Some r2"
  shows "filter (\<lambda>u. generateRowKey ff (PrimaryKey u) = k)
           (Updated (compareRows ff sch tn fromRows toRows ign)) =
         (if rowsEqual r1 r2 ign then []
          else [\<lparr>PrimaryKey = extractPrimaryKey r1,
                 Before = filterIgnoredColumns r1 ign,
                 After = filterIgnoredColumns r2 ign\<rparr>])"
proof -
  let ?emit = "\<lambda>(key, fromRow).
      case map_of (keyMap ff toRows) key of
        None \<Rightarrow> []
      | Some toRow \<Rightarrow>
          if \<not> rowsEqual fromRow toRow ign
          then [\<lparr>PrimaryKey = extractPrimaryKey fromRow,
                 Before = filterIgnoredColumns fromRow ign,
                 After = filterIgnoredColumns toRow ign\<rparr>]
          else []"
  let ?es = "rangeMap (updatedOrder sch) (keyMap ff fromRows)"
  have upd: "Updated (compareRows ff sch tn fromRows toRows ign) = concat (map ?emit ?es)"
    by (simp add: compareRows_def Let_def)
  have d: "distinct (map fst ?es)"
    by (simp add: distinct_fst_rangeMap distinct_keyMap)
  have m: "(k, r1) \<in> set ?es"
    using f by (simp add: set_rangeMap keyMap_entry)
  have key: "generateRowKey ff (PrimaryKey u) = k'"
    if "(k', r') \<in> set ?es" and "u \<in> set (?emit (k', r'))" for k' r' u
  proof -
    from that(1) have "generateRowKey ff r' = k'"
      by (simp add: set_rangeMap keyMap_entry_key)
    with that(2) show ?thesis
      by (cases "map_of (keyMap ff toRows) k'")
         (auto simp: generateRowKey_extractPrimaryKey split: if_splits)
  qed
  have "filter (\<lambda>u. generateRowKey ff (PrimaryKey u) = k) (concat (map ?emit ?es)) = ?emit (k, r1)"
    using d m key by (rule filter_concat_by_key)
  with upd t show ?thesis by simp
qed

lemma rowsEqual_column:
  assumes "rowsEqual r1 r2 ign" and "\<not> ign c"
    and "map_of r1 c = Some v1" and "map_of r2 c = Some v2"
  shows "deepEqual v1 v2"
proof -
  from assms(3) have "c \<in> set (map fst r1)"
    by (metis map_of_SomeD fst_conv image_eqI list.set_map)
  with assms(1) have "if ign c then True
      else (case map_of r2 c of None \<Rightarrow> False | Some val2 \<Rightarrow> deepEqual (lookupCol r1 c) val2)"
    unfolding rowsEqual_def list_all_iff by fast
  with assms(2,3,4) show ?thesis by (simp add: lookupCol_def)
qed

lemma concat_map_Nil: "(\<And>e. e \<in> set es \<Longrightarrow> emit e = []) \<Longrightarrow> concat (map emit es) = []"
  by (induction es) auto

lemma fold_append_concat:
  "fold (\<lambda>k key. key @ seg k) ks acc = acc @ concat (map seg ks)"
  by (induction ks arbitrary: acc) simp_all

lemma keyMap_holds_last:
  "map_of (keyMap ff rows) (generateRowKey ff r) = Some r \<longleftrightarrow>
     r \<in> set rows \<and> last (filter (\<lambda>x. generateRowKey ff x = generateRowKey ff r) rows) = r"
proof
  assume a: "map_of (keyMap ff rows) (generateRowKey ff r) = Some r"
  then have "r \<in> set rows" by (rule keyMap_lookup_SomeD(2))
  moreover from a have "last (filter (\<lambda>x. generateRowKey ff x = generateRowKey ff r) rows) = r"
    by (auto simp: keyMap_lookup split: list.splits)
  ultimately show "r \<in> set rows \<and>
      last (filter (\<lambda>x. generateRowKey ff x = generateRowKey ff r) rows) = r" by simp
next
  assume a: "r \<in> set rows \<and>
      last (filter (\<lambda>x. generateRowKey ff x = generateRowKey ff r) rows) = r"
  then have "filter (\<lambda>x. generateRowKey ff x = generateRowKey ff r) rows \<noteq> []"
    by (auto simp: filter_empty_conv)
  with a show "map_of (keyMap ff rows) (generateRowKey ff r) = Some r"
    by (auto simp: keyMap_lookup split: list.splits)
qed

lemma in_Inserted:
  "r \<in> set (Inserted (compareRows ff sch tn fromRows toRows ign)) \<longleftrightarrow>
     map_of (keyMap ff toRows) (generateRowKey ff r) = Some r \<and>
     map_of (keyMap ff fromRows) (generateRowKey ff r) = None"
proof -
  have "r \<in> set (Inserted (compareRows ff sch tn fromRows toRows ign)) \<longleftrightarrow>
        (\<exists>k. (k, r) \<in> set (keyMap ff toRows) \<and> map_of (keyMap ff fromRows) k = None)"
    by (auto simp: compareRows_def Let_def set_rangeMap split: if_splits)
  also have "\<dots> \<longleftrightarrow> map_of (keyMap ff toRows) (generateRowKey ff r) = Some r \<and>
     map_of (keyMap ff fromRows) (generateRowKey ff r) = None"
    using keyMap_entry_key by (auto simp: keyMap_entry)
  finally show ?thesis .
qed

lemma in_Deleted:
  "r \<in> set (Deleted (compareRows ff sch tn fromRows toRows ign)) \<longleftrightarrow>
     map_of (keyMap ff fromRows) (generateRowKey ff r) = Some r \<and>
     map_of (keyMap ff toRows) (generateRowKey ff r) = None"
proof -
  have "r \<in> set (Deleted (compareRows ff sch tn fromRows toRows ign)) \<longleftrightarrow>
        (\<exists>k. (k, r) \<in> set (keyMap ff fromRows) \<and> map_of (keyMap ff toRows) k = None)"
    by (auto simp: compareRows_def Let_def set_rangeMap split: if_splits)
  also have "\<dots> \<longleftrightarrow> map_of (keyMap ff fromRows) (generateRowKey ff r) = Some r \<and>
     map_of (keyMap ff toRows) (generateRowKey ff r) = None"
    using keyMap_entry_key by (auto simp: keyMap_entry)
  finally show ?thesis .
qed

lemma Updated_key_in_both:
  assumes "u \<in> set (Updated (compareRows ff sch tn fromRows toRows ign))"
  shows "map_of (keyMap ff fromRows) (generateRowKey ff (PrimaryKey u)) \<noteq> None \<and>
         map_of (keyMap ff toRows) (generateRowKey ff (PrimaryKey u)) \<noteq> None"
proof -
  from assms have "generateRowKey ff (PrimaryKey u) \<in>
      set (map (\<lambda>u. generateRowKey ff (PrimaryKey u))
               (Updated (compareRows ff sch tn fromRows toRows ign)))"
    by simp
  then show ?thesis
    unfolding Updated_keys
    by (auto simp: set_rangeMap keyMap_entry split: option.splits)
qed

lemma Deleted_key_absent:
  assumes "d \<in> set (Deleted (compareRows ff sch tn fromRows toRows ign))"
  shows "map_of (keyMap ff toRows) (generateRowKey ff d) = None"
  using assms by (simp add: in_Deleted)

lemma Inserted_key_absent:
  assumes "d \<in> set (Inserted (compareRows ff sch tn fromRows toRows ign))"
  shows "map_of (keyMap ff fromRows) (generateRowKey ff d) = None"
  using assms by (simp add: in_Inserted)

lemma mset_concat_map_cong:
  assumes "mset es = mset es'"
  shows "mset (concat (map emit es)) = mset (concat (map emit es'))"
proof -
  have "mset (concat (map emit xs)) = sum_mset (image_mset (\<lambda>e. mset (emit e)) (mset xs))" for xs
    by (induction xs) simp_all
  with assms show ?thesis by simp
qed

lemma mset_concat_rangeMap:
  "mset (concat (map emit (rangeMap cs es))) = mset (concat (map emit es))"
  by (rule mset_concat_map_cong) (rule mset_rangeMap)

lemma compareRows_same_elements:
  "TableName (compareRows ff sch tn fromRows toRows ign) =
     TableName (compareRows ff sch' tn fromRows toRows ign) \<and>
   mset (Inserted (compareRows ff sch tn fromRows toRows ign)) =
     mset (Inserted (compareRows ff sch' tn fromRows toRows ign)) \<and>
   mset (Updated (compareRows ff sch tn fromRows toRows ign)) =
     mset (Updated (compareRows ff sch' tn fromRows toRows ign)) \<and>
   mset (Deleted (compareRows ff sch tn fromRows toRows ign)) =
     mset (Deleted (compareRows ff sch' tn fromRows toRows ign))"
  by (simp add: compareRows_def Let_def mset_concat_rangeMap)

lemma compareRows_no_rows:
  "compareRows ff sch tn [] [] ign = \<lparr>TableName = tn, Inserted = [], Updated = [], Deleted = []\<rparr>"
  by (simp add: compareRows_def keyMap_def)

lemma fold_update_lookup:
  "map_of (fold (\<lambda>k acc. if skip k then acc else AList.update k (f k) acc) ks acc) t =
     (if t \<in> set ks \<and> \<not> skip t then Some (f t) else map_of acc t)"
  by (induction ks arbitrary: acc) (auto simp: update_conv')

text \<open>The rows Run compares for a table, and the TableDiff it computes for it.\<close>

lemma diffTable_unfold:
  "diffTable ff sched store opts =
     (\<lambda>tableName result.
        if OnlyChanged opts \<and>
           Inserted (compareRows ff (sched tableName) tableName
              (convertToMapSlice (case LoadSnapshot store (From opts) tableName of
                                    None \<Rightarrow> VList [] | Some data \<Rightarrow> data))
              (convertToMapSlice (case LoadSnapshot store (To opts) tableName of
                                    None \<Rightarrow> VList [] | Some data \<Rightarrow> data))
              (\<lambda>col. col \<in> set (IgnoreColumns opts))) = [] \<and>
           Updated (compareRows ff (sched tableName) tableName
              (convertToMapSlice (case LoadSnapshot store (From opts) tableName of
                                    None \<Rightarrow> VList [] | Some data \<Rightarrow> data))
              (convertToMapSlice (case LoadSnapshot store (To opts) tableName of
                                    None \<Rightarrow> VList [] | Some data \<Rightarrow> data))
              (\<lambda>col. col \<in> set (IgnoreColumns opts))) = [] \<and>
           Deleted (compareRows ff (sched tableName) tableName
              (convertToMapSlice (case LoadSnapshot store (From opts) tableName of
                                    None \<Rightarrow> VList [] | Some data \<Rightarrow> data))
              (convertToMapSlice (case LoadSnapshot store (To opts) tableName of
                                    None \<Rightarrow> VList [] | Some data \<Rightarrow> data))
              (\<lambda>col. col \<in> set (IgnoreColumns opts))) = []
        then result
        else AList.update tableName
               (compareRows ff (sched tableName) tableName
                  (convertToMapSlice (case LoadSnapshot store (From opts) tableName of
                                        None \<Rightarrow> VList [] | Some data \<Rightarrow> data))
                  (convertToMapSlice (case LoadSnapshot store (To opts) tableName of
                                        None \<Rightarrow> VList [] | Some data \<Rightarrow> data))
                  (\<lambda>col. col \<in> set (IgnoreColumns opts)))
               result)"
  by (simp add: diffTable_def Let_def fun_eq_iff)

lemma Run_table_entry:
  assumes "newStorage (BaseDir opts) = Some store"
    and "resolveTables store opts = Inr tables"
  shows "\<exists>result. Run ff sched newStorage opts = Inr result \<and>
           (\<forall>t. map_of result t =
              (let tableDiff = compareRows ff (sched t) t
                     (convertToMapSlice (case LoadSnapshot store (From opts) t of
                                           None \<Rightarrow> VList [] | Some data \<Rightarrow> data))
                     (convertToMapSlice (case LoadSnapshot store (To opts) t of
                                           None \<Rightarrow> VList [] | Some data \<Rightarrow> data))
                     (\<lambda>col. col \<in> set (IgnoreColumns opts))
               in if t \<in> set tables \<and>
                     \<not> (OnlyChanged opts \<and> Inserted tableDiff = [] \<and> Updated tableDiff = [] \<and>
                        Deleted tableDiff = [])
                  then Some tableDiff else None))"
proof -
  have "Run ff sched newStorage opts = Inr (fold (diffTable ff sched store opts) tables [])"
    using assms by (simp add: Run_def)
  moreover have "map_of (fold (diffTable ff sched store opts) tables []) t =
              (let tableDiff = compareRows ff (sched t) t
                     (convertToMapSlice (case LoadSnapshot store (From opts) t of
                                           None \<Rightarrow> VList [] | Some data \<Rightarrow> data))
                     (convertToMapSlice (case LoadSnapshot store (To opts) t of
                                           None \<Rightarrow> VList [] | Some data \<Rightarrow> data))
                     (\<lambda>col. col \<in> set (IgnoreColumns opts))
               in if t \<in> set tables \<and>
                     \<not> (OnlyChanged opts \<and> Inserted tableDiff = [] \<and> Updated tableDiff = [] \<and>
                        Deleted tableDiff = [])
                  then Some tableDiff else None)" for t
    unfolding diffTable_unfold Let_def
    by (simp only: fold_update_lookup map_of.simps)
  ultimately show ?thesis by simp
qed

lemma map_of_rangeMap:
  assumes "distinct (map fst es)"
  shows "map_of (rangeMap cs es) = map_of es"
proof (rule ext)
  fix k
  have d: "distinct (map fst (rangeMap cs es))"
    using assms by (simp add: distinct_fst_rangeMap)
  show "map_of (rangeMap cs es) k = map_of es k"
  proof (cases "map_of es k")
    case None
    then have "k \<notin> fst ` set es" by (simp add: map_of_eq_None_iff)
    then have "k \<notin> fst ` set (rangeMap cs es)" by (simp add: set_rangeMap)
    then have "map_of (rangeMap cs es) k = None" by (simp add: map_of_eq_None_iff)
    with None show ?thesis by simp
  next
    case (Some v)
    then have "(k, v) \<in> set es" by (rule map_of_SomeD)
    then have "(k, v) \<in> set (rangeMap cs es)" by (simp add: set_rangeMap)
    with d have "map_of (rangeMap cs es) k = Some v" by simp
    with Some show ?thesis by simp
  qed
qed

lemma fold_keep_lookup:
  assumes "distinct (map fst es)"
  shows "map_of (fold (\<lambda>(k, v) acc. if keep v then AList.update k (g v) acc else acc) es acc) t =
     (case map_of es t of
        None \<Rightarrow> map_of acc t
      | Some v \<Rightarrow> if keep v then Some (g v) else map_of acc t)"
  using assms
proof (induction es arbitrary: acc)
  case Nil
  then show ?case by simp
next
  case (Cons e es)
  obtain k v where e: "e = (k, v)" by (cases e)
  from Cons.prems e have k: "map_of es k = None" and d: "distinct (map fst es)"
    by (auto simp: map_of_eq_None_iff)
  show ?case
    using Cons.IH[OF d] e k
    by (auto simp: update_conv' split: option.splits)
qed

lemma tableMapOf_nonempty:
  "tableMapOf td = [] \<longleftrightarrow> Inserted td = [] \<and> Updated td = [] \<and> Deleted td = []"
  by (auto simp: tableMapOf_def Let_def)

lemma resultMapOf_lookup:
  assumes "distinct (map fst result)"
  shows "map_of (resultMapOf cs result) t =
     (case map_of result t of
        None \<Rightarrow> None
      | Some td \<Rightarrow>
          if Inserted td = [] \<and> Updated td = [] \<and> Deleted td = [] then None
          else Some (VMap (tableMapOf td)))"
proof -
  have d: "distinct (map fst (rangeMap cs result))"
    using assms by (simp add: distinct_fst_rangeMap)
  have f: "(\<lambda>(tableName, tableDiff) resultMap.
             let tableMap = tableMapOf tableDiff
             in if length tableMap > 0 then AList.update tableName (VMap tableMap) resultMap
                else resultMap) =
        (\<lambda>(k, v) acc. if tableMapOf v \<noteq> [] then AList.update k (VMap (tableMapOf v)) acc else acc)"
    by (simp add: fun_eq_iff Let_def)
  show ?thesis
    unfolding resultMapOf_def f
    by (simp add: fold_keep_lookup[OF d] map_of_rangeMap[OF assms] tableMapOf_nonempty
             split: option.splits)
qed

lemma resultMapOf_all_empty:
  assumes "list_all (\<lambda>(t, td). Inserted td = [] \<and> Updated td = [] \<and> Deleted td = []) result"
  shows "resultMapOf cs result = []"
proof -
  have "fold (\<lambda>(tableName, tableDiff) resultMap.
             let tableMap = tableMapOf tableDiff
             in if length tableMap > 0 then AList.update tableName (VMap tableMap) resultMap
                else resultMap) es acc = acc"
    if "list_all (\<lambda>(t, td). Inserted td = [] \<and> Updated td = [] \<and> Deleted td = []) es" for es acc
    using that by (induction es arbitrary: acc) (auto simp: tableMapOf_def Let_def)
  moreover have "list_all (\<lambda>(t, td). Inserted td = [] \<and> Updated td = [] \<and> Deleted td = [])
      (rangeMap cs result)"
    using assms by (simp add: list_all_iff set_rangeMap)
  ultimately show ?thesis by (simp add: resultMapOf_def)
qed

lemma compareJSON_iff:
  "compareJSON marshal expected actual \<longleftrightarrow>
     (\<exists>s. marshal expected = Some s \<and> marshal actual = Some s)"
  by (auto simp: compareJSON_def split: option.splits)

lemma sameElements_compareRows:
  "sameElements (compareRows ff sch tn fromRows toRows ign) (compareRows ff sch' tn fromRows toRows ign)"
  unfolding sameElements_def by (rule compareRows_same_elements)

lemma sameElements_empty:
  assumes "sameElements d d'"
  shows "Inserted d = [] \<longleftrightarrow> Inserted d' = []"
    and "Updated d = [] \<longleftrightarrow> Updated d' = []"
    and "Deleted d = [] \<longleftrightarrow> Deleted d' = []"
  using assms unfolding sameElements_def
  by (metis mset_zero_iff)+

lemma update_list_all2:
  assumes "list_all2 (\<lambda>(t, d) (t', d'). t = t' \<and> R d d') acc acc'" and "R v v'"
  shows "list_all2 (\<lambda>(t, d) (t', d'). t = t' \<and> R d d') (AList.update k v acc) (AList.update k v' acc')"
  using assms by (induction acc acc' rule: list_all2_induct) auto

lemma fold_diffTable_related:
  assumes "list_all2 (\<lambda>(t, d) (t', d'). t = t' \<and> sameElements d d') acc acc'"
  shows "list_all2 (\<lambda>(t, d) (t', d'). t = t' \<and> sameElements d d')
           (fold (diffTable ff sched store opts) tables acc)
           (fold (diffTable ff sched' store opts) tables acc')"
  using assms
proof (induction tables arbitrary: acc acc')
  case Nil
  then show ?case by simp
next
  case (Cons t tables)
  let ?d = "\<lambda>s. compareRows ff (s t) t
              (convertToMapSlice (case LoadSnapshot store (From opts) t of
                                    None \<Rightarrow> VList [] | Some data \<Rightarrow> data))
              (convertToMapSlice (case LoadSnapshot store (To opts) t of
                                    None \<Rightarrow> VList [] | Some data \<Rightarrow> data))
              (\<lambda>col. col \<in> set (IgnoreColumns opts))"
  have same: "sameElements (?d sched) (?d sched')"
    by (rule sameElements_compareRows)
  have "list_all2 (\<lambda>(t, d) (t', d'). t = t' \<and> sameElements d d')
          (diffTable ff sched store opts t acc) (diffTable ff sched' store opts t acc')"
    unfolding diffTable_unfold
    using sameElements_empty[OF same] update_list_all2[OF Cons.prems same] Cons.prems
    by simp
  then show ?case
    using Cons.IH by simp
qed

lemma fold_diffTable_distinct:
  "distinct (map fst acc) \<Longrightarrow>
   distinct (map fst (fold (diffTable ff sched store opts) tables acc))"
proof (induction tables arbitrary: acc)
  case Nil
  then show ?case by simp
next
  case (Cons t tables)
  have "distinct (map fst (diffTable ff sched store opts t acc))"
    using Cons.prems by (simp add: diffTable_def Let_def distinct_update)
  then show ?case using Cons.IH by simp
qed

lemma Run_result_distinct:
  assumes "Run ff sched newStorage opts = Inr result"
  shows "distinct (map fst result)"
proof -
  from assms obtain store tables where
    "result = fold (diffTable ff sched store opts) tables []"
    by (auto simp: Run_def split: option.splits sum.splits)
  then show ?thesis by (simp add: fold_diffTable_distinct)
qed

lemma alist_eqI:
  assumes "distinct (map fst m)" and "map fst m = map fst m'"
    and "\<And>k. k \<in> set (map fst m) \<Longrightarrow> map_of m k = map_of m' k"
  shows "m = m'"
  using assms
proof (induction m arbitrary: m')
  case Nil
  then show ?case by simp
next
  case (Cons e m)
  obtain k v where e: "e = (k, v)" by (cases e)
  from Cons.prems(2) e obtain v' m2 where m': "m' = (k, v') # m2" and f: "map fst m = map fst m2"
    by (cases m') auto
  from Cons.prems(3)[of k] e m' have v: "v = v'" by simp
  have "m = m2"
  proof (rule Cons.IH)
    show "distinct (map fst m)" using Cons.prems(1) by simp
    show "map fst m = map fst m2" by (rule f)
    fix k' assume k': "k' \<in> set (map fst m)"
    then have "k' \<noteq> k" using Cons.prems(1) e by auto
    with Cons.prems(3)[of k'] k' e m' show "map_of m k' = map_of m2 k'" by simp
  qed
  with e m' v show ?case by simp
qed

lemma deepEqual_canonical_eq:
  "deepEqual v w \<Longrightarrow> canonical v \<Longrightarrow> canonical w \<Longrightarrow> v = w"
proof (induction v arbitrary: w)
  case VNil
  then show ?case by (cases w) simp_all
next
  case (VBool b)
  then show ?case by (cases w) simp_all
next
  case (VInteger k i)
  then show ?case by (cases w) simp_all
next
  case (VFloating k x)
  then show ?case by (cases w) simp_all
next
  case (VStr s)
  then show ?case by (cases w) simp_all
next
  case (VList xs)
  from VList.prems(1) obtain ys where w: "w = VList ys" and l: "list_all2 deepEqual xs ys"
    by (cases w) simp_all
  have "list_all2 (=) xs ys"
  proof (rule list.rel_mono_strong[OF l])
    fix x y assume "x \<in> set xs" "y \<in> set ys" "deepEqual x y"
    moreover have "canonical x" using VList.prems(2) \<open>x \<in> set xs\<close> by (simp add: list_all_iff)
    moreover have "canonical y" using VList.prems(3) w \<open>y \<in> set ys\<close> by (simp add: list_all_iff)
    ultimately show "x = y" using VList.IH by blast
  qed
  then have "xs = ys" by (simp add: list.rel_eq)
  with w show ?case by simp
next
  case (VMap m)
  from VMap.prems(1) obtain m' where w: "w = VMap m'"
    and len: "length (remdups (map fst m)) = length (remdups (map fst m'))"
    and all: "list_all (\<lambda>k. case map_of m k of
                        None \<Rightarrow> False
                      | Some v1 \<Rightarrow> (case map_of m' k of None \<Rightarrow> False | Some v2 \<Rightarrow> deepEqual v1 v2))
               (map fst m)"
    by (cases w) simp_all
  from VMap.prems(2) have s: "sorted (map fst m)" and d: "distinct (map fst m)"
    and c: "list_all canonical (map snd m)" by simp_all
  from VMap.prems(3) w have s': "sorted (map fst m')" and d': "distinct (map fst m')"
    and c': "list_all canonical (map snd m')" by simp_all
  have pair: "\<exists>v1 v2. map_of m k = Some v1 \<and> map_of m' k = Some v2 \<and> deepEqual v1 v2"
    if "k \<in> set (map fst m)" for k
  proof -
    from all that have "case map_of m k of
                        None \<Rightarrow> False
                      | Some v1 \<Rightarrow> (case map_of m' k of None \<Rightarrow> False | Some v2 \<Rightarrow> deepEqual v1 v2)"
      unfolding list_all_iff by fast
    then show ?thesis by (auto split: option.splits)
  qed
  have sub: "set (map fst m) \<subseteq> set (map fst m')"
  proof
    fix k assume "k \<in> set (map fst m)"
    from pair[OF this] obtain v2 where "map_of m' k = Some v2" by fast
    then have "(k, v2) \<in> set m'" by (rule map_of_SomeD)
    then show "k \<in> set (map fst m')" by force
  qed
  have "card (set (map fst m)) = card (set (map fst m'))"
    using len by (simp only: length_remdups_card_conv)
  with sub have "set (map fst m) = set (map fst m')"
    by (simp add: card_subset_eq)
  with s d s' d' have keys: "map fst m = map fst m'"
    by (metis sorted_distinct_set_unique)
  have "m = m'"
  proof (rule alist_eqI[OF d keys])
    fix k assume k: "k \<in> set (map fst m)"
    from pair[OF k] obtain v1 v2 where
      v1: "map_of m k = Some v1" and v2: "map_of m' k = Some v2" and e: "deepEqual v1 v2" by fast
    from v1 have in1: "(k, v1) \<in> set m" by (rule map_of_SomeD)
    from v2 have in2: "(k, v2) \<in> set m'" by (rule map_of_SomeD)
    from in1 have c1: "canonical v1" using c by (force simp: list_all_iff)
    from in2 have c2: "canonical v2" using c' by (force simp: list_all_iff)
    from in1 have "v1 \<in> Basic_BNFs.snds (k, v1)" "(k, v1) \<in> set m" by (simp_all add: snds.simps)
    then have "v1 = v2" using VMap.IH e c1 c2 by blast
    with v1 v2 show "map_of m k = map_of m' k" by simp
  qed
  with w show ?case by simp
qed

lemma deepEqual_canonical:
  "canonical v \<Longrightarrow> canonical w \<Longrightarrow> deepEqual v w \<longleftrightarrow> v = w"
  using deepEqual_canonical_eq deepEqual_refl by fast

lemma rowsEqual_iff:
  "rowsEqual r1 r2 ign \<longleftrightarrow>
     (\<forall>c. \<not> ign c \<longrightarrow> rel_option deepEqual (map_of r1 c) (map_of r2 c))"
proof
  assume eq: "rowsEqual r1 r2 ign"
  show "\<forall>c. \<not> ign c \<longrightarrow> rel_option deepEqual (map_of r1 c) (map_of r2 c)"
  proof (intro allI impI)
    fix c assume ni: "\<not> ign c"
    show "rel_option deepEqual (map_of r1 c) (map_of r2 c)"
    proof (cases "map_of r1 c")
      case None
      have "map_of r2 c = None"
      proof (rule ccontr)
        assume "map_of r2 c \<noteq> None"
        then obtain b where "map_of r2 c = Some b" by fast
        then have "c \<in> set (map fst r2)"
          by (metis map_of_SomeD fst_conv image_eqI list.set_map)
        with eq have "if ign c then True
            else (case map_of r1 c of None \<Rightarrow> False | Some _ \<Rightarrow> True)"
          unfolding rowsEqual_def list_all_iff by fast
        with ni None show False by simp
      qed
      with None show ?thesis by simp
    next
      case (Some a)
      then have "c \<in> set (map fst r1)"
        by (metis map_of_SomeD fst_conv image_eqI list.set_map)
      with eq have "if ign c then True
          else (case map_of r2 c of None \<Rightarrow> False | Some val2 \<Rightarrow> deepEqual (lookupCol r1 c) val2)"
        unfolding rowsEqual_def list_all_iff by fast
      with ni Some show ?thesis
        by (cases "map_of r2 c") (simp_all add: lookupCol_def)
    qed
  qed
next
  assume a: "\<forall>c. \<not> ign c \<longrightarrow> rel_option deepEqual (map_of r1 c) (map_of r2 c)"
  show "rowsEqual r1 r2 ign"
  proof (rule ccontr)
    assume "\<not> rowsEqual r1 r2 ign"
    then show False
    proof -
      let ?P1 = "\<lambda>key. if ign key then True
          else (case map_of r2 key of None \<Rightarrow> False | Some val2 \<Rightarrow> deepEqual (lookupCol r1 key) val2)"
      let ?P2 = "\<lambda>key. if ign key then True
          else (case map_of r1 key of None \<Rightarrow> False | Some _ \<Rightarrow> True)"
      from \<open>\<not> rowsEqual r1 r2 ign\<close>
      have "\<not> list_all ?P1 (map fst r1) \<or> \<not> list_all ?P2 (map fst r2)"
        unfolding rowsEqual_def by fast
      then consider (a) key where "key \<in> set (map fst r1)" "\<not> ?P1 key"
        | (b) key where "key \<in> set (map fst r2)" "\<not> ?P2 key"
        unfolding list_all_iff by fast
      then show False
      proof cases
        case a
        from a(2) have ni: "\<not> ign key" by (cases "ign key") simp_all
        from column_has_value[OF a(1)] obtain v1 where v1: "map_of r1 key = Some v1" ..
        from a ni have r: "rel_option deepEqual (map_of r1 key) (map_of r2 key)"
          using \<open>\<forall>c. \<not> ign c \<longrightarrow> rel_option deepEqual (map_of r1 c) (map_of r2 c)\<close> by simp
        from a(2) ni v1 r show False
          by (cases "map_of r2 key") (simp_all add: lookupCol_def)
      next
        case b
        from b(2) have ni: "\<not> ign key" by (cases "ign key") simp_all
        from column_has_value[OF b(1)] obtain v2 where v2: "map_of r2 key = Some v2" ..
        from ni have r: "rel_option deepEqual (map_of r1 key) (map_of r2 key)"
          using \<open>\<forall>c. \<not> ign c \<longrightarrow> rel_option deepEqual (map_of r1 c) (map_of r2 c)\<close> by simp
        from b(2) ni v2 r show False
          by (cases "map_of r1 key") simp_all
      qed
    qed
  qed
qed

lemma deepEqual_numericType:
  assumes "numericType v = Some s" and "numericType w = Some t" and "s \<noteq> t"
  shows "\<not> deepEqual v w"
  using assms by (cases v; cases w) auto

section \<open>The claims\<close>

text \<open>
  C1. Let the key \<open>k\<close> be in both key maps, with the row \<open>r1\<close> in the from map and
  the row \<open>r2\<close> in the to map. If rowsEqual finds them equal under the ignore set, the
  updated bucket has no UpdatedRow with key \<open>k\<close>. If it finds them unequal, the bucket has
  exactly one UpdatedRow with key \<open>k\<close>: its primary key is extracted from \<open>r1\<close>, its
  before and after are \<open>r1\<close> and \<open>r2\<close> without the ignored columns (an ignored column has
  no value in them, every other column has the value it has in the row), and before and
  after differ in a column that is not ignored. This holds for every order in which the
  maps are visited.
\<close>

theorem C1_updated_row:
  assumes "map_of (keyMap ff fromRows) k = Some r1"
    and "map_of (keyMap ff toRows) k = Some r2"
  shows "(rowsEqual r1 r2 ign \<longrightarrow>
            filter (\<lambda>u. generateRowKey ff (PrimaryKey u) = k)
              (Updated (compareRows ff sch tn fromRows toRows ign)) = []) \<and>
         (\<not> rowsEqual r1 r2 ign \<longrightarrow>
            filter (\<lambda>u. generateRowKey ff (PrimaryKey u) = k)
              (Updated (compareRows ff sch tn fromRows toRows ign)) =
              [\<lparr>PrimaryKey = extractPrimaryKey r1,
                Before = filterIgnoredColumns r1 ign,
                After = filterIgnoredColumns r2 ign\<rparr>] \<and>
            (\<forall>c. map_of (filterIgnoredColumns r1 ign) c = (if ign c then None else map_of r1 c)) \<and>
            (\<forall>c. map_of (filterIgnoredColumns r2 ign) c = (if ign c then None else map_of r2 c)) \<and>
            (\<exists>c. \<not> ign c \<and>
                 map_of (filterIgnoredColumns r1 ign) c \<noteq> map_of (filterIgnoredColumns r2 ign) c))"
proof (intro conjI impI allI)
  assume "rowsEqual r1 r2 ign"
  then show "filter (\<lambda>u. generateRowKey ff (PrimaryKey u) = k)
      (Updated (compareRows ff sch tn fromRows toRows ign)) = []"
    by (simp add: Updated_for_key[OF assms])
next
  assume "\<not> rowsEqual r1 r2 ign"
  then show "filter (\<lambda>u. generateRowKey ff (PrimaryKey u) = k)
      (Updated (compareRows ff sch tn fromRows toRows ign)) =
      [\<lparr>PrimaryKey = extractPrimaryKey r1,
        Before = filterIgnoredColumns r1 ign,
        After = filterIgnoredColumns r2 ign\<rparr>]"
    by (simp add: Updated_for_key[OF assms])
next
  fix c show "map_of (filterIgnoredColumns r1 ign) c = (if ign c then None else map_of r1 c)"
    by (rule map_of_filterIgnoredColumns)
next
  fix c show "map_of (filterIgnoredColumns r2 ign) c = (if ign c then None else map_of r2 c)"
    by (rule map_of_filterIgnoredColumns)
next
  assume "\<not> rowsEqual r1 r2 ign"
  from rowsEqual_differ[OF this] obtain c where "\<not> ign c" and "map_of r1 c \<noteq> map_of r2 c"
    by fast
  then have "\<not> ign c \<and>
      map_of (filterIgnoredColumns r1 ign) c \<noteq> map_of (filterIgnoredColumns r2 ign) c"
    by (simp add: map_of_filterIgnoredColumns)
  then show "\<exists>c. \<not> ign c \<and>
      map_of (filterIgnoredColumns r1 ign) c \<noteq> map_of (filterIgnoredColumns r2 ign) c" ..
qed

theorem C1_updated_row_witness:
  "map_of (keyMap wholeFloat exampleFrom) ''1'' = Some [(''id'', VInt 1), (''name'', VStr ''a'')] \<and>
   map_of (keyMap wholeFloat exampleTo) ''1'' = Some [(''id'', VInt 1), (''name'', VStr ''a2'')] \<and>
   \<not> rowsEqual [(''id'', VInt 1), (''name'', VStr ''a'')] [(''id'', VInt 1), (''name'', VStr ''a2'')]
       (\<lambda>c. c = ''id'') \<and>
   filter (\<lambda>u. generateRowKey wholeFloat (PrimaryKey u) = ''1'')
     (Updated (compareRows wholeFloat inOrder ''users'' exampleFrom exampleTo (\<lambda>c. c = ''id''))) =
     [\<lparr>PrimaryKey = [(''id'', VInt 1)], Before = [(''name'', VStr ''a'')],
       After = [(''name'', VStr ''a2'')]\<rparr>] \<and>
   rowsEqual [(''id'', VInt 1), (''name'', VStr ''a'')] [(''id'', VInt 1), (''name'', VStr ''a2'')]
       (\<lambda>c. c = ''name'') \<and>
   filter (\<lambda>u. generateRowKey wholeFloat (PrimaryKey u) = ''1'')
     (Updated (compareRows wholeFloat inOrder ''users'' exampleFrom exampleTo (\<lambda>c. c = ''name''))) = []"
proof -
  have f: "map_of (keyMap wholeFloat exampleFrom) ''1'' = Some [(''id'', VInt 1), (''name'', VStr ''a'')]"
    by code_simp
  have t: "map_of (keyMap wholeFloat exampleTo) ''1'' = Some [(''id'', VInt 1), (''name'', VStr ''a2'')]"
    by code_simp
  have n: "\<not> rowsEqual [(''id'', VInt 1), (''name'', VStr ''a'')]
      [(''id'', VInt 1), (''name'', VStr ''a2'')] (\<lambda>c. c = ''id'')"
    by code_simp
  have e: "extractPrimaryKey [(''id'', VInt 1), (''name'', VStr ''a'')] = [(''id'', VInt 1)]"
    "filterIgnoredColumns [(''id'', VInt 1), (''name'', VStr ''a'')] (\<lambda>c. c = ''id'') = [(''name'', VStr ''a'')]"
    "filterIgnoredColumns [(''id'', VInt 1), (''name'', VStr ''a2'')] (\<lambda>c. c = ''id'') = [(''name'', VStr ''a2'')]"
    by (simp_all add: extractPrimaryKey_def filterIgnoredColumns_def)
  have q: "rowsEqual [(''id'', VInt 1), (''name'', VStr ''a'')]
      [(''id'', VInt 1), (''name'', VStr ''a2'')] (\<lambda>c. c = ''name'')"
    by code_simp
  from C1_updated_row[OF f t, of "\<lambda>c. c = ''id''" inOrder "''users''"] n e
  have 1: "filter (\<lambda>u. generateRowKey wholeFloat (PrimaryKey u) = ''1'')
     (Updated (compareRows wholeFloat inOrder ''users'' exampleFrom exampleTo (\<lambda>c. c = ''id''))) =
     [\<lparr>PrimaryKey = [(''id'', VInt 1)], Before = [(''name'', VStr ''a'')],
       After = [(''name'', VStr ''a2'')]\<rparr>]"
    by simp
  from C1_updated_row[OF f t, of "\<lambda>c. c = ''name''" inOrder "''users''"] q
  have 2: "filter (\<lambda>u. generateRowKey wholeFloat (PrimaryKey u) = ''1'')
     (Updated (compareRows wholeFloat inOrder ''users'' exampleFrom exampleTo (\<lambda>c. c = ''name''))) = []"
    by simp
  from f t n 1 q 2 show ?thesis by (intro conjI)
qed

text \<open>
  C2, as amended. A key map keeps, of the rows that share an identity key, the last one.
  Let \<open>r\<close> be a row of toRows that is the last row of toRows with its identity key, and
  let that key be absent from the from key map. Then \<open>r\<close> itself, ignored columns
  included, is in the inserted bucket, no deleted row has its key and no UpdatedRow has
  its key. Symmetrically, a row of fromRows that is the last one with its key, the key
  being absent from the to key map, is in the deleted bucket, and no inserted row and no
  UpdatedRow has its key.

  As first stated, for every row of toRows, the claim fails: a row followed by another
  row with the same key is replaced in the key map and reported nowhere.
\<close>

theorem C2_inserted_deleted:
  "(r \<in> set toRows \<and>
    last (filter (\<lambda>x. generateRowKey ff x = generateRowKey ff r) toRows) = r \<and>
    map_of (keyMap ff fromRows) (generateRowKey ff r) = None \<longrightarrow>
      r \<in> set (Inserted (compareRows ff sch tn fromRows toRows ign)) \<and>
      (\<forall>d \<in> set (Deleted (compareRows ff sch tn fromRows toRows ign)).
         generateRowKey ff d \<noteq> generateRowKey ff r) \<and>
      (\<forall>u \<in> set (Updated (compareRows ff sch tn fromRows toRows ign)).
         generateRowKey ff (PrimaryKey u) \<noteq> generateRowKey ff r)) \<and>
   (r \<in> set fromRows \<and>
    last (filter (\<lambda>x. generateRowKey ff x = generateRowKey ff r) fromRows) = r \<and>
    map_of (keyMap ff toRows) (generateRowKey ff r) = None \<longrightarrow>
      r \<in> set (Deleted (compareRows ff sch tn fromRows toRows ign)) \<and>
      (\<forall>i \<in> set (Inserted (compareRows ff sch tn fromRows toRows ign)).
         generateRowKey ff i \<noteq> generateRowKey ff r) \<and>
      (\<forall>u \<in> set (Updated (compareRows ff sch tn fromRows toRows ign)).
         generateRowKey ff (PrimaryKey u) \<noteq> generateRowKey ff r))"
proof (intro conjI impI ballI)
  assume a: "r \<in> set toRows \<and>
    last (filter (\<lambda>x. generateRowKey ff x = generateRowKey ff r) toRows) = r \<and>
    map_of (keyMap ff fromRows) (generateRowKey ff r) = None"
  then have t: "map_of (keyMap ff toRows) (generateRowKey ff r) = Some r"
    by (simp add: keyMap_holds_last)
  from a have f: "map_of (keyMap ff fromRows) (generateRowKey ff r) = None" by simp
  from t f show "r \<in> set (Inserted (compareRows ff sch tn fromRows toRows ign))"
    by (simp add: in_Inserted)
  show "generateRowKey ff d \<noteq> generateRowKey ff r"
    if "d \<in> set (Deleted (compareRows ff sch tn fromRows toRows ign))" for d
    using Deleted_key_absent[OF that] t by auto
  show "generateRowKey ff (PrimaryKey u) \<noteq> generateRowKey ff r"
    if "u \<in> set (Updated (compareRows ff sch tn fromRows toRows ign))" for u
    using Updated_key_in_both[OF that] f by auto
next
  assume a: "r \<in> set fromRows \<and>
    last (filter (\<lambda>x. generateRowKey ff x = generateRowKey ff r) fromRows) = r \<and>
    map_of (keyMap ff toRows) (generateRowKey ff r) = None"
  then have f: "map_of (keyMap ff fromRows) (generateRowKey ff r) = Some r"
    by (simp add: keyMap_holds_last)
  from a have t: "map_of (keyMap ff toRows) (generateRowKey ff r) = None" by simp
  from t f show "r \<in> set (Deleted (compareRows ff sch tn fromRows toRows ign))"
    by (simp add: in_Deleted)
  show "generateRowKey ff i \<noteq> generateRowKey ff r"
    if "i \<in> set (Inserted (compareRows ff sch tn fromRows toRows ign))" for i
    using Inserted_key_absent[OF that] f by auto
  show "generateRowKey ff (PrimaryKey u) \<noteq> generateRowKey ff r"
    if "u \<in> set (Updated (compareRows ff sch tn fromRows toRows ign))" for u
    using Updated_key_in_both[OF that] t by auto
qed

theorem C2_shadowed_row_counterexample:
  "[(''id'', VInt 1), (''name'', VStr ''a'')] \<in>
     set [[(''id'', VInt 1), (''name'', VStr ''a'')], [(''id'', VInt 1), (''name'', VStr ''b'')]] \<and>
   map_of (keyMap wholeFloat []) (generateRowKey wholeFloat [(''id'', VInt 1), (''name'', VStr ''a'')]) = None \<and>
   Inserted (compareRows wholeFloat inOrder ''users'' []
      [[(''id'', VInt 1), (''name'', VStr ''a'')], [(''id'', VInt 1), (''name'', VStr ''b'')]]
      (\<lambda>c. False)) = [[(''id'', VInt 1), (''name'', VStr ''b'')]] \<and>
   [(''id'', VInt 1), (''name'', VStr ''a'')] \<notin>
     set (Inserted (compareRows wholeFloat inOrder ''users'' []
      [[(''id'', VInt 1), (''name'', VStr ''a'')], [(''id'', VInt 1), (''name'', VStr ''b'')]]
      (\<lambda>c. False)))"
  by code_simp

theorem C2_inserted_deleted_witness:
  "[(''id'', VInt 3), (''name'', VStr ''c'')] \<in> set exampleTo \<and>
   last (filter (\<lambda>x. generateRowKey wholeFloat x =
                      generateRowKey wholeFloat [(''id'', VInt 3), (''name'', VStr ''c'')]) exampleTo) =
     [(''id'', VInt 3), (''name'', VStr ''c'')] \<and>
   map_of (keyMap wholeFloat exampleFrom)
     (generateRowKey wholeFloat [(''id'', VInt 3), (''name'', VStr ''c'')]) = None \<and>
   [(''id'', VInt 3), (''name'', VStr ''c'')] \<in>
     set (Inserted (compareRows wholeFloat inOrder ''users'' exampleFrom exampleTo (\<lambda>c. c = ''name''))) \<and>
   [(''id'', VInt 2), (''name'', VStr ''b'')] \<in> set exampleFrom \<and>
   last (filter (\<lambda>x. generateRowKey wholeFloat x =
                      generateRowKey wholeFloat [(''id'', VInt 2), (''name'', VStr ''b'')]) exampleFrom) =
     [(''id'', VInt 2), (''name'', VStr ''b'')] \<and>
   map_of (keyMap wholeFloat exampleTo)
     (generateRowKey wholeFloat [(''id'', VInt 2), (''name'', VStr ''b'')]) = None \<and>
   [(''id'', VInt 2), (''name'', VStr ''b'')] \<in>
     set (Deleted (compareRows wholeFloat inOrder ''users'' exampleFrom exampleTo (\<lambda>c. c = ''name'')))"
proof -
  have i: "[(''id'', VInt 3), (''name'', VStr ''c'')] \<in> set exampleTo"
    "last (filter (\<lambda>x. generateRowKey wholeFloat x =
                      generateRowKey wholeFloat [(''id'', VInt 3), (''name'', VStr ''c'')]) exampleTo) =
     [(''id'', VInt 3), (''name'', VStr ''c'')]"
    "map_of (keyMap wholeFloat exampleFrom)
     (generateRowKey wholeFloat [(''id'', VInt 3), (''name'', VStr ''c'')]) = None"
    by code_simp+
  have d: "[(''id'', VInt 2), (''name'', VStr ''b'')] \<in> set exampleFrom"
    "last (filter (\<lambda>x. generateRowKey wholeFloat x =
                      generateRowKey wholeFloat [(''id'', VInt 2), (''name'', VStr ''b'')]) exampleFrom) =
     [(''id'', VInt 2), (''name'', VStr ''b'')]"
    "map_of (keyMap wholeFloat exampleTo)
     (generateRowKey wholeFloat [(''id'', VInt 2), (''name'', VStr ''b'')]) = None"
    by code_simp+
  from C2_inserted_deleted[of "[(''id'', VInt 3), (''name'', VStr ''c'')]" exampleTo wholeFloat
         exampleFrom inOrder "''users''" "\<lambda>c. c = ''name''"] i
  have a: "[(''id'', VInt 3), (''name'', VStr ''c'')] \<in>
     set (Inserted (compareRows wholeFloat inOrder ''users'' exampleFrom exampleTo (\<lambda>c. c = ''name'')))"
    by fast
  from C2_inserted_deleted[of "[(''id'', VInt 2), (''name'', VStr ''b'')]" exampleTo wholeFloat
         exampleFrom inOrder "''users''" "\<lambda>c. c = ''name''"] d
  have b: "[(''id'', VInt 2), (''name'', VStr ''b'')] \<in>
     set (Deleted (compareRows wholeFloat inOrder ''users'' exampleFrom exampleTo (\<lambda>c. c = ''name'')))"
    by fast
  from i d a b show ?thesis by (intro conjI)
qed

text \<open>
  C3. In the TableDiff compareRows returns, whatever the order in which the maps are
  visited, the identity keys of the inserted rows, of the deleted rows and of the
  updated rows (the key of an UpdatedRow is the key of its primary key, which is the key
  of the row it projects) are all different: no key is in two buckets, and no key is
  twice in one bucket.
\<close>

theorem C3_buckets_disjoint:
  "distinct (map (generateRowKey ff) (Inserted (compareRows ff sch tn fromRows toRows ign)) @
             map (generateRowKey ff) (Deleted (compareRows ff sch tn fromRows toRows ign)) @
             map (\<lambda>u. generateRowKey ff (PrimaryKey u))
                 (Updated (compareRows ff sch tn fromRows toRows ign)))"
proof -
  let ?td = "compareRows ff sch tn fromRows toRows ign"
  let ?ik = "map (generateRowKey ff) (Inserted ?td)"
  let ?dk = "map (generateRowKey ff) (Deleted ?td)"
  let ?uk = "map (\<lambda>u. generateRowKey ff (PrimaryKey u)) (Updated ?td)"
  have di: "distinct ?ik" and dd: "distinct ?dk" and du: "distinct ?uk"
    by (simp_all only: Inserted_keys Deleted_keys Updated_keys distinct_fst_filter_range)
  have i: "map_of (keyMap ff toRows) k \<noteq> None \<and> map_of (keyMap ff fromRows) k = None"
    if "k \<in> set ?ik" for k
    using that unfolding Inserted_keys
    by (auto simp: set_rangeMap keyMap_entry)
  have d: "map_of (keyMap ff fromRows) k \<noteq> None \<and> map_of (keyMap ff toRows) k = None"
    if "k \<in> set ?dk" for k
    using that unfolding Deleted_keys
    by (auto simp: set_rangeMap keyMap_entry)
  have u: "map_of (keyMap ff fromRows) k \<noteq> None \<and> map_of (keyMap ff toRows) k \<noteq> None"
    if "k \<in> set ?uk" for k
    using that unfolding Updated_keys
    by (auto simp: set_rangeMap keyMap_entry split: option.splits)
  have "set ?ik \<inter> set ?dk = {}" using i d by fastforce
  moreover have "set ?ik \<inter> set ?uk = {}" using i u by fastforce
  moreover have "set ?dk \<inter> set ?uk = {}" using d u by fastforce
  ultimately show ?thesis using di dd du by (simp only: distinct_append set_append) fast
qed


theorem C3_buckets_disjoint_witness:
  "distinct (map (generateRowKey wholeFloat)
               (Inserted (compareRows wholeFloat inOrder ''users'' exampleFrom exampleTo (\<lambda>c. False))) @
             map (generateRowKey wholeFloat)
               (Deleted (compareRows wholeFloat inOrder ''users'' exampleFrom exampleTo (\<lambda>c. False))) @
             map (\<lambda>u. generateRowKey wholeFloat (PrimaryKey u))
               (Updated (compareRows wholeFloat inOrder ''users'' exampleFrom exampleTo (\<lambda>c. False)))) \<and>
   map (generateRowKey wholeFloat)
       (Inserted (compareRows wholeFloat inOrder ''users'' exampleFrom exampleTo (\<lambda>c. False))) @
   map (generateRowKey wholeFloat)
       (Deleted (compareRows wholeFloat inOrder ''users'' exampleFrom exampleTo (\<lambda>c. False))) @
   map (\<lambda>u. generateRowKey wholeFloat (PrimaryKey u))
       (Updated (compareRows wholeFloat inOrder ''users'' exampleFrom exampleTo (\<lambda>c. False)))
     = [''3'', ''2'', ''1'']"
proof (rule conjI)
  show "distinct (map (generateRowKey wholeFloat)
               (Inserted (compareRows wholeFloat inOrder ''users'' exampleFrom exampleTo (\<lambda>c. False))) @
             map (generateRowKey wholeFloat)
               (Deleted (compareRows wholeFloat inOrder ''users'' exampleFrom exampleTo (\<lambda>c. False))) @
             map (\<lambda>u. generateRowKey wholeFloat (PrimaryKey u))
               (Updated (compareRows wholeFloat inOrder ''users'' exampleFrom exampleTo (\<lambda>c. False))))"
    by (rule C3_buckets_disjoint)
  show "map (generateRowKey wholeFloat)
       (Inserted (compareRows wholeFloat inOrder ''users'' exampleFrom exampleTo (\<lambda>c. False))) @
   map (generateRowKey wholeFloat)
       (Deleted (compareRows wholeFloat inOrder ''users'' exampleFrom exampleTo (\<lambda>c. False))) @
   map (\<lambda>u. generateRowKey wholeFloat (PrimaryKey u))
       (Updated (compareRows wholeFloat inOrder ''users'' exampleFrom exampleTo (\<lambda>c. False)))
     = [''3'', ''2'', ''1'']"
    by code_simp
qed

text \<open>
  C4. Comparing a row collection with itself, nothing ignored, gives a TableDiff with
  the table's name and empty inserted, updated and deleted buckets, for every table name,
  every collection (rows with equal keys included) and every order of visiting the maps.
\<close>

theorem C4_diff_self_empty:
  "compareRows ff sch tn rows rows (\<lambda>c. False) =
     \<lparr>TableName = tn, Inserted = [], Updated = [], Deleted = []\<rparr>"
proof -
  let ?m = "keyMap ff rows"
  have present: "map_of ?m k = Some r" if "(k, r) \<in> set (rangeMap cs ?m)" for k r cs
    using that by (simp add: set_rangeMap keyMap_entry)
  have ins: "concat (map (\<lambda>(key, row). if map_of ?m key = None then [row] else [])
                 (rangeMap (insertedOrder sch) ?m)) = []"
    by (rule concat_map_Nil) (auto dest: present)
  have del: "concat (map (\<lambda>(key, row). if map_of ?m key = None then [row] else [])
                 (rangeMap (deletedOrder sch) ?m)) = []"
    by (rule concat_map_Nil) (auto dest: present)
  have upd: "concat (map (\<lambda>(key, fromRow).
                 case map_of ?m key of
                   None \<Rightarrow> []
                 | Some toRow \<Rightarrow>
                     if \<not> rowsEqual fromRow toRow (\<lambda>c. False)
                     then [\<lparr>PrimaryKey = extractPrimaryKey fromRow,
                            Before = filterIgnoredColumns fromRow (\<lambda>c. False),
                            After = filterIgnoredColumns toRow (\<lambda>c. False)\<rparr>]
                     else [])
               (rangeMap (updatedOrder sch) ?m)) = []"
    by (rule concat_map_Nil) (auto dest: present simp: rowsEqual_refl)
  show ?thesis
    by (simp add: compareRows_def Let_def ins del upd)
qed

theorem C4_diff_self_empty_witness:
  "compareRows wholeFloat inOrder ''users'' (exampleFrom @ exampleTo) (exampleFrom @ exampleTo) (\<lambda>c. False) =
     \<lparr>TableName = ''users'', Inserted = [], Updated = [], Deleted = []\<rparr> \<and>
   length (keyMap wholeFloat (exampleFrom @ exampleTo)) = 3"
proof (rule conjI)
  show "compareRows wholeFloat inOrder ''users'' (exampleFrom @ exampleTo) (exampleFrom @ exampleTo) (\<lambda>c. False) =
     \<lparr>TableName = ''users'', Inserted = [], Updated = [], Deleted = []\<rparr>"
    by (rule C4_diff_self_empty)
  show "length (keyMap wholeFloat (exampleFrom @ exampleTo)) = 3"
    by code_simp
qed

text \<open>
  C5. The identity key of a row with an \<^verbatim>\<open>id\<close> column is the rendering of that column's
  value. The key of a row without one is the concatenation of \<^verbatim>\<open>name:value;\<close> over its
  columns in ascending order of the names. Two rows that give the same value to the same
  columns have the same key, in whatever order the columns are listed. The key of the
  row with no columns is the empty string.
\<close>

theorem C5_identity_key:
  "(map_of row ''id'' = Some v \<longrightarrow> generateRowKey ff row = sprintv ff v) \<and>
   (map_of row ''id'' = None \<longrightarrow>
      generateRowKey ff row =
        concat (map (\<lambda>k. k @ '':'' @ sprintv ff (lookupCol row k) @ '';'')
                    (sorted_list_of_set (fst ` set row)))) \<and>
   (map_of row = map_of row' \<longrightarrow> generateRowKey ff row = generateRowKey ff row') \<and>
   generateRowKey ff [] = []"
proof (intro conjI impI)
  assume "map_of row ''id'' = Some v"
  then show "generateRowKey ff row = sprintv ff v"
    by (simp add: generateRowKey_def)
next
  have keys: "sort (remdups (map fst r)) = sorted_list_of_set (fst ` set r)" for r :: row
    by (metis list.set_map sorted_list_of_set_sort_remdups)
  show noid: "generateRowKey ff r =
        concat (map (\<lambda>k. k @ '':'' @ sprintv ff (lookupCol r k) @ '';'')
                    (sorted_list_of_set (fst ` set r)))"
    if "map_of r ''id'' = None" for r
    using that by (simp add: generateRowKey_def Let_def fold_append_concat keys del: set_map)
  show "generateRowKey ff row = generateRowKey ff row'" if eq: "map_of row = map_of row'"
  proof -
    have "fst ` set row = fst ` set row'"
      using eq by (metis dom_map_of_conv_image_fst)
    moreover have "lookupCol row = lookupCol row'"
      using eq by (simp add: lookupCol_def fun_eq_iff)
    ultimately show ?thesis
      using eq by (cases "map_of row' ''id''") (simp_all add: noid, simp add: generateRowKey_def)
  qed
  show "generateRowKey ff [] = []"
    by (simp add: generateRowKey_def)
qed

theorem C5_identity_key_witness:
  "map_of [(''name'', VStr ''a''), (''id'', VInt 42)] ''id'' = Some (VInt 42) \<and>
   generateRowKey wholeFloat [(''name'', VStr ''a''), (''id'', VInt 42)] = ''42'' \<and>
   map_of [(''name'', VStr ''a''), (''age'', VFloat 30)] ''id'' = None \<and>
   generateRowKey wholeFloat [(''name'', VStr ''a''), (''age'', VFloat 30)] = ''age:30;name:a;'' \<and>
   map_of [(''name'', VStr ''a''), (''age'', VFloat 30)] = map_of [(''age'', VFloat 30), (''name'', VStr ''a'')] \<and>
   generateRowKey wholeFloat [(''name'', VStr ''a''), (''age'', VFloat 30)] =
     generateRowKey wholeFloat [(''age'', VFloat 30), (''name'', VStr ''a'')]"
proof -
  have a: "map_of [(''name'', VStr ''a''), (''id'', VInt 42)] ''id'' = Some (VInt 42)"
    by simp
  have b: "map_of [(''name'', VStr ''a''), (''age'', VFloat 30)] ''id'' = None"
    by simp
  have c: "map_of [(''name'', VStr ''a''), (''age'', VFloat 30)] = map_of [(''age'', VFloat 30), (''name'', VStr ''a'')]"
    by (auto simp: fun_eq_iff)
  have s: "sprintv wholeFloat (VInt 42) = ''42''"
    by code_simp
  have k: "generateRowKey wholeFloat [(''name'', VStr ''a''), (''age'', VFloat 30)] = ''age:30;name:a;''"
    by code_simp
  from C5_identity_key[of "[(''name'', VStr ''a''), (''id'', VInt 42)]" "VInt 42" wholeFloat]
       C5_identity_key[of "[(''name'', VStr ''a''), (''age'', VFloat 30)]" _ wholeFloat
                          "[(''age'', VFloat 30), (''name'', VStr ''a'')]"]
       a b c s k
  show ?thesis by simp
qed

text \<open>
  C6 asks that rows without an \<^verbatim>\<open>id\<close> column whose values differ are never reported as
  an update. The key of such a row is built from the renderings of its values, and the
  rendering does not tell \<^verbatim>\<open>true\<close> from the string \<^verbatim>\<open>"true"\<close>: the two rows below get the
  same key, are matched and compared, and come out as one UpdatedRow, with nothing
  inserted and nothing deleted.
\<close>

theorem C6_update_without_id:
  "generateRowKey wholeFloat [(''a'', VBool True)] = ''a:true;'' \<and>
   generateRowKey wholeFloat [(''a'', VStr ''true'')] = ''a:true;'' \<and>
   compareRows wholeFloat inOrder ''t'' [[(''a'', VBool True)]] [[(''a'', VStr ''true'')]] (\<lambda>c. False) =
     \<lparr>TableName = ''t'', Inserted = [],
      Updated = [\<lparr>PrimaryKey = [(''a'', VBool True)], Before = [(''a'', VBool True)],
                  After = [(''a'', VStr ''true'')]\<rparr>],
      Deleted = []\<rparr>"
  by code_simp

text \<open>
  C7, as amended. Let Run create its storage and resolve its table set (the filter, or
  the names of both snapshots), and let \<open>t\<close> be a table of that set whose data loads from
  neither snapshot. Then Run returns a result, not an error. With only-changed on, the
  result has no entry for \<open>t\<close>; with only-changed off it has one, a TableDiff named \<open>t\<close>
  with empty inserted, updated and deleted buckets. Run fails only when the storage
  cannot be created or the tables of a snapshot cannot be listed, never on a table that
  does not load.

  As first stated, with no entry for the table in either case, the claim fails: a
  snapshot that does not load counts as an empty one, and the table is left out only
  behind the only-changed flag.
\<close>

theorem C7_table_missing_from_both:
  "(newStorage (BaseDir opts) = Some store \<and> resolveTables store opts = Inr tables \<and>
    t \<in> set tables \<and>
    LoadSnapshot store (From opts) t = None \<and> LoadSnapshot store (To opts) t = None \<longrightarrow>
      (\<exists>result. Run ff sched newStorage opts = Inr result \<and>
         map_of result t =
           (if OnlyChanged opts then None
            else Some \<lparr>TableName = t, Inserted = [], Updated = [], Deleted = []\<rparr>))) \<and>
   (Run ff sched newStorage opts = Inl e \<longrightarrow>
      newStorage (BaseDir opts) = None \<and> e = CreateStorageFailed \<or>
      (\<exists>store. newStorage (BaseDir opts) = Some store \<and> resolveTables store opts = Inl e))"
proof (intro conjI impI)
  assume a: "newStorage (BaseDir opts) = Some store \<and> resolveTables store opts = Inr tables \<and>
    t \<in> set tables \<and>
    LoadSnapshot store (From opts) t = None \<and> LoadSnapshot store (To opts) t = None"
  then have s: "newStorage (BaseDir opts) = Some store" and r: "resolveTables store opts = Inr tables"
    by simp_all
  from Run_table_entry[where newStorage = newStorage and opts = opts and store = store
      and tables = tables and ff = ff and sched = sched] s r obtain result where
    run: "Run ff sched newStorage opts = Inr result" and
    entry: "map_of result t =
              (let tableDiff = compareRows ff (sched t) t
                     (convertToMapSlice (case LoadSnapshot store (From opts) t of
                                           None \<Rightarrow> VList [] | Some data \<Rightarrow> data))
                     (convertToMapSlice (case LoadSnapshot store (To opts) t of
                                           None \<Rightarrow> VList [] | Some data \<Rightarrow> data))
                     (\<lambda>col. col \<in> set (IgnoreColumns opts))
               in if t \<in> set tables \<and>
                     \<not> (OnlyChanged opts \<and> Inserted tableDiff = [] \<and> Updated tableDiff = [] \<and>
                        Deleted tableDiff = [])
                  then Some tableDiff else None)"
    by fast
  from entry a have "map_of result t =
           (if OnlyChanged opts then None
            else Some \<lparr>TableName = t, Inserted = [], Updated = [], Deleted = []\<rparr>)"
    by (simp add: convertToMapSlice_def compareRows_no_rows)
  with run show "\<exists>result. Run ff sched newStorage opts = Inr result \<and>
         map_of result t =
           (if OnlyChanged opts then None
            else Some \<lparr>TableName = t, Inserted = [], Updated = [], Deleted = []\<rparr>)"
    by simp
next
  assume "Run ff sched newStorage opts = Inl e"
  then show "newStorage (BaseDir opts) = None \<and> e = CreateStorageFailed \<or>
      (\<exists>store. newStorage (BaseDir opts) = Some store \<and> resolveTables store opts = Inl e)"
    by (auto simp: Run_def split: option.splits sum.splits)
qed

theorem C7_empty_entry_counterexample:
  "LoadSnapshot \<lparr>ListSnapshotTables = (\<lambda>label. Some []), LoadSnapshot = (\<lambda>label table. None)\<rparr>
     ''pre'' ''ghost'' = None \<and>
   LoadSnapshot \<lparr>ListSnapshotTables = (\<lambda>label. Some []), LoadSnapshot = (\<lambda>label table. None)\<rparr>
     ''post'' ''ghost'' = None \<and>
   Run wholeFloat (\<lambda>table. inOrder)
     (\<lambda>dir. Some \<lparr>ListSnapshotTables = (\<lambda>label. Some []), LoadSnapshot = (\<lambda>label table. None)\<rparr>)
     \<lparr>From = ''pre'', To = ''post'', Tables = [''ghost''], IgnoreColumns = [], OnlyChanged = False,
      BaseDir = ''.snapdiff''\<rparr> =
   Inr [(''ghost'', \<lparr>TableName = ''ghost'', Inserted = [], Updated = [], Deleted = []\<rparr>)]"
  by (simp add: Run_def resolveTables_def diffTable_def convertToMapSlice_def compareRows_no_rows)

theorem C7_table_missing_from_both_witness:
  "resolveTables \<lparr>ListSnapshotTables = (\<lambda>label. Some []), LoadSnapshot = (\<lambda>label table. None)\<rparr>
     \<lparr>From = ''pre'', To = ''post'', Tables = [''ghost''], IgnoreColumns = [], OnlyChanged = True,
      BaseDir = ''.snapdiff''\<rparr> = Inr [''ghost''] \<and>
   (\<exists>result.
      Run wholeFloat (\<lambda>table. inOrder)
        (\<lambda>dir. Some \<lparr>ListSnapshotTables = (\<lambda>label. Some []), LoadSnapshot = (\<lambda>label table. None)\<rparr>)
        \<lparr>From = ''pre'', To = ''post'', Tables = [''ghost''], IgnoreColumns = [], OnlyChanged = True,
         BaseDir = ''.snapdiff''\<rparr> = Inr result \<and>
      map_of result ''ghost'' = None) \<and>
   Run wholeFloat (\<lambda>table. inOrder) (\<lambda>dir. None)
     \<lparr>From = ''pre'', To = ''post'', Tables = [''ghost''], IgnoreColumns = [], OnlyChanged = True,
      BaseDir = ''.snapdiff''\<rparr> = Inl CreateStorageFailed"
proof -
  let ?store = "\<lparr>ListSnapshotTables = (\<lambda>label. Some []), LoadSnapshot = (\<lambda>label table. None)\<rparr>"
  let ?opts = "\<lparr>From = ''pre'', To = ''post'', Tables = [''ghost''], IgnoreColumns = [],
      OnlyChanged = True, BaseDir = ''.snapdiff''\<rparr>"
  have r: "resolveTables ?store ?opts = Inr [''ghost'']"
    by (simp add: resolveTables_def)
  from C7_table_missing_from_both[of "\<lambda>dir. Some ?store" ?opts ?store "[''ghost'']" "''ghost''"
         wholeFloat "\<lambda>table. inOrder"] r
  have "\<exists>result. Run wholeFloat (\<lambda>table. inOrder) (\<lambda>dir. Some ?store) ?opts = Inr result \<and>
      map_of result ''ghost'' = None"
    by simp
  moreover have "Run wholeFloat (\<lambda>table. inOrder) (\<lambda>dir. None) ?opts = Inl CreateStorageFailed"
    by (simp add: Run_def)
  ultimately show ?thesis using r by simp
qed

text \<open>
  C8, as amended. The order in which Go visits a map is not an input of the program. For
  the same table name, row collections and ignore set, two runs of compareRows that
  visit the maps in different orders return the same table name and buckets with the
  same elements, each as often in one as in the other; only the order of the elements
  within a bucket follows the order of the visit. Run, with the same storage and options,
  fails in both runs with the same error or returns results with the same tables, table
  by table equal in that sense.

  As first stated, with the order of the buckets and the verdict of the assert command
  determined by the inputs, the claim fails: two new rows are inserted in either order,
  and runAssertCmd, which serializes the buckets as they come, accepts the expected
  changes in the one order and reports a mismatch in the other.
\<close>

theorem C8_same_elements_any_order:
  "sameElements (compareRows ff sch tn fromRows toRows ign)
                (compareRows ff sch' tn fromRows toRows ign) \<and>
   rel_sum (=) (list_all2 (\<lambda>(t, d) (t', d'). t = t' \<and> sameElements d d'))
     (Run ff sched newStorage opts) (Run ff sched' newStorage opts)"
proof (rule conjI)
  show "sameElements (compareRows ff sch tn fromRows toRows ign)
                (compareRows ff sch' tn fromRows toRows ign)"
    by (rule sameElements_compareRows)
  show "rel_sum (=) (list_all2 (\<lambda>(t, d) (t', d'). t = t' \<and> sameElements d d'))
     (Run ff sched newStorage opts) (Run ff sched' newStorage opts)"
  proof (cases "newStorage (BaseDir opts)")
    case None
    then show ?thesis by (simp add: Run_def)
  next
    case (Some store)
    show ?thesis
    proof (cases "resolveTables store opts")
      case (Inl e)
      with Some show ?thesis by (simp add: Run_def)
    next
      case (Inr tables)
      have "list_all2 (\<lambda>(t, d) (t', d'). t = t' \<and> sameElements d d')
           (fold (diffTable ff sched store opts) tables [])
           (fold (diffTable ff sched' store opts) tables [])"
        by (rule fold_diffTable_related) simp
      with Some Inr show ?thesis by (simp add: Run_def)
    qed
  qed
qed

theorem C8_order_counterexample:
  "Inserted (compareRows wholeFloat \<lparr>insertedOrder = [0], deletedOrder = [], updatedOrder = []\<rparr>
      ''users'' [] exampleTo (\<lambda>c. False)) =
     [[(''id'', VInt 1), (''name'', VStr ''a2'')], [(''id'', VInt 3), (''name'', VStr ''c'')]] \<and>
   Inserted (compareRows wholeFloat \<lparr>insertedOrder = [1], deletedOrder = [], updatedOrder = []\<rparr>
      ''users'' [] exampleTo (\<lambda>c. False)) =
     [[(''id'', VInt 3), (''name'', VStr ''c'')], [(''id'', VInt 1), (''name'', VStr ''a2'')]] \<and>
   compareRows wholeFloat \<lparr>insertedOrder = [0], deletedOrder = [], updatedOrder = []\<rparr>
      ''users'' [] exampleTo (\<lambda>c. False) \<noteq>
   compareRows wholeFloat \<lparr>insertedOrder = [1], deletedOrder = [], updatedOrder = []\<rparr>
      ''users'' [] exampleTo (\<lambda>c. False) \<and>
   runAssertCmd wholeFloat (\<lambda>table. \<lparr>insertedOrder = [0], deletedOrder = [], updatedOrder = []\<rparr>)
      (\<lambda>dir. Some newRowsStorage) exampleMarshal (\<lambda>file. Some ''expected changes'')
      (\<lambda>data. Some newRowsExpected) [] exampleOptions ''expected.json'' = Inr () \<and>
   runAssertCmd wholeFloat (\<lambda>table. \<lparr>insertedOrder = [1], deletedOrder = [], updatedOrder = []\<rparr>)
      (\<lambda>dir. Some newRowsStorage) exampleMarshal (\<lambda>file. Some ''expected changes'')
      (\<lambda>data. Some newRowsExpected) [] exampleOptions ''expected.json'' = Inl Mismatch"
proof -
  have a: "Inserted (compareRows wholeFloat \<lparr>insertedOrder = [0], deletedOrder = [], updatedOrder = []\<rparr>
      ''users'' [] exampleTo (\<lambda>c. False)) =
     [[(''id'', VInt 1), (''name'', VStr ''a2'')], [(''id'', VInt 3), (''name'', VStr ''c'')]]"
    by code_simp
  have b: "Inserted (compareRows wholeFloat \<lparr>insertedOrder = [1], deletedOrder = [], updatedOrder = []\<rparr>
      ''users'' [] exampleTo (\<lambda>c. False)) =
     [[(''id'', VInt 3), (''name'', VStr ''c'')], [(''id'', VInt 1), (''name'', VStr ''a2'')]]"
    by code_simp
  have "Inserted (compareRows wholeFloat \<lparr>insertedOrder = [0], deletedOrder = [], updatedOrder = []\<rparr>
      ''users'' [] exampleTo (\<lambda>c. False)) \<noteq>
     Inserted (compareRows wholeFloat \<lparr>insertedOrder = [1], deletedOrder = [], updatedOrder = []\<rparr>
      ''users'' [] exampleTo (\<lambda>c. False))"
    unfolding a b by simp
  then have c: "compareRows wholeFloat \<lparr>insertedOrder = [0], deletedOrder = [], updatedOrder = []\<rparr>
      ''users'' [] exampleTo (\<lambda>c. False) \<noteq>
   compareRows wholeFloat \<lparr>insertedOrder = [1], deletedOrder = [], updatedOrder = []\<rparr>
      ''users'' [] exampleTo (\<lambda>c. False)"
    by metis
  have d: "runAssertCmd wholeFloat (\<lambda>table. \<lparr>insertedOrder = [0], deletedOrder = [], updatedOrder = []\<rparr>)
      (\<lambda>dir. Some newRowsStorage) exampleMarshal (\<lambda>file. Some ''expected changes'')
      (\<lambda>data. Some newRowsExpected) [] exampleOptions ''expected.json'' = Inr ()"
    by code_simp
  have e: "runAssertCmd wholeFloat (\<lambda>table. \<lparr>insertedOrder = [1], deletedOrder = [], updatedOrder = []\<rparr>)
      (\<lambda>dir. Some newRowsStorage) exampleMarshal (\<lambda>file. Some ''expected changes'')
      (\<lambda>data. Some newRowsExpected) [] exampleOptions ''expected.json'' = Inl Mismatch"
    by code_simp
  from a b c d e show ?thesis by (intro conjI)
qed

theorem C8_same_elements_any_order_witness:
  "sameElements
     (compareRows wholeFloat \<lparr>insertedOrder = [0], deletedOrder = [], updatedOrder = []\<rparr>
        ''users'' [] exampleTo (\<lambda>c. False))
     (compareRows wholeFloat \<lparr>insertedOrder = [1], deletedOrder = [], updatedOrder = []\<rparr>
        ''users'' [] exampleTo (\<lambda>c. False)) \<and>
   mset [[(''id'', VInt 1), (''name'', VStr ''a2'')], [(''id'', VInt 3), (''name'', VStr ''c'')]] =
   mset [[(''id'', VInt 3), (''name'', VStr ''c'')], [(''id'', VInt 1), (''name'', VStr ''a2'')]]"
proof -
  have a: "Inserted (compareRows wholeFloat \<lparr>insertedOrder = [0], deletedOrder = [], updatedOrder = []\<rparr>
      ''users'' [] exampleTo (\<lambda>c. False)) =
     [[(''id'', VInt 1), (''name'', VStr ''a2'')], [(''id'', VInt 3), (''name'', VStr ''c'')]]"
    by code_simp
  have b: "Inserted (compareRows wholeFloat \<lparr>insertedOrder = [1], deletedOrder = [], updatedOrder = []\<rparr>
      ''users'' [] exampleTo (\<lambda>c. False)) =
     [[(''id'', VInt 3), (''name'', VStr ''c'')], [(''id'', VInt 1), (''name'', VStr ''a2'')]]"
    by code_simp
  note s = C8_same_elements_any_order[of wholeFloat
      "\<lparr>insertedOrder = [0], deletedOrder = [], updatedOrder = []\<rparr>" "''users''" "[]" exampleTo
      "\<lambda>c. False" "\<lparr>insertedOrder = [1], deletedOrder = [], updatedOrder = []\<rparr>"]
  from s have "mset (Inserted (compareRows wholeFloat \<lparr>insertedOrder = [0], deletedOrder = [], updatedOrder = []\<rparr>
        ''users'' [] exampleTo (\<lambda>c. False))) =
     mset (Inserted (compareRows wholeFloat \<lparr>insertedOrder = [1], deletedOrder = [], updatedOrder = []\<rparr>
        ''users'' [] exampleTo (\<lambda>c. False)))"
    by (simp add: sameElements_def)
  then have "mset [[(''id'', VInt 1), (''name'', VStr ''a2'')], [(''id'', VInt 3), (''name'', VStr ''c'')]] =
   mset [[(''id'', VInt 3), (''name'', VStr ''c'')], [(''id'', VInt 1), (''name'', VStr ''a2'')]]"
    unfolding a b .
  with s show ?thesis by simp
qed

text \<open>
  C9. The canonical shape of a TableDiff has the key \<^verbatim>\<open>inserted\<close>, \<^verbatim>\<open>updated\<close> or \<^verbatim>\<open>deleted\<close>
  exactly when that bucket is not empty (an updated row as its \<^verbatim>\<open>primary_key\<close>, \<^verbatim>\<open>before\<close>
  and \<^verbatim>\<open>after\<close>), and no other key. The canonical shape of a result of Run has a table
  exactly when the table is in the result with a bucket that is not empty, mapped to the
  shape of its TableDiff. compareJSON holds exactly when both sides serialize, to the
  same string. Once the options are given, Run has returned a result, and the expected
  file is read and parsed, runAssertCmd succeeds if compareJSON holds of the expected
  payload and the canonical shape of the result, and reports a mismatch otherwise. A
  result whose buckets are all empty has the empty canonical shape, which compares equal
  to the empty payload (the serializer, a parameter here, has to succeed on the empty
  object, as \<^verbatim>\<open>json.Marshal\<close> does).
\<close>

theorem C9_assert_comparator:
  "(map_of (tableMapOf td) ''inserted'' =
      (if Inserted td = [] then None else Some (VList (map VMap (Inserted td)))) \<and>
    map_of (tableMapOf td) ''updated'' =
      (if Updated td = [] then None
       else Some (VList (map (\<lambda>row. VMap [(''primary_key'', VMap (PrimaryKey row)),
                                           (''before'', VMap (Before row)),
                                           (''after'', VMap (After row))]) (Updated td)))) \<and>
    map_of (tableMapOf td) ''deleted'' =
      (if Deleted td = [] then None else Some (VList (map VMap (Deleted td)))) \<and>
    set (map fst (tableMapOf td)) \<subseteq> {''inserted'', ''updated'', ''deleted''}) \<and>
   (Run ff sched newStorage opts = Inr result \<longrightarrow>
      map_of (resultMapOf cs result) t =
        (case map_of result t of
           None \<Rightarrow> None
         | Some d \<Rightarrow>
             if Inserted d = [] \<and> Updated d = [] \<and> Deleted d = [] then None
             else Some (VMap (tableMapOf d)))) \<and>
   (compareJSON marshal expected actual \<longleftrightarrow>
      (\<exists>s. marshal expected = Some s \<and> marshal actual = Some s)) \<and>
   (From opts \<noteq> [] \<and> To opts \<noteq> [] \<and> expectedFile \<noteq> [] \<and>
    Run ff sched newStorage opts = Inr result \<and>
    readFile expectedFile = Some expectedData \<and> unmarshal expectedData = Some expected \<longrightarrow>
      runAssertCmd ff sched newStorage marshal readFile unmarshal cs opts expectedFile =
        (if compareJSON marshal expected (VMap (resultMapOf cs result)) then Inr () else Inl Mismatch)) \<and>
   (list_all (\<lambda>(t, d). Inserted d = [] \<and> Updated d = [] \<and> Deleted d = []) result \<and>
    marshal (VMap []) = Some s0 \<longrightarrow>
      resultMapOf cs result = [] \<and> compareJSON marshal (VMap []) (VMap (resultMapOf cs result)))"
proof (intro conjI impI)
  show "map_of (tableMapOf td) ''inserted'' =
      (if Inserted td = [] then None else Some (VList (map VMap (Inserted td))))"
    by (simp add: tableMapOf_def Let_def update_conv')
  show "map_of (tableMapOf td) ''updated'' =
      (if Updated td = [] then None
       else Some (VList (map (\<lambda>row. VMap [(''primary_key'', VMap (PrimaryKey row)),
                                           (''before'', VMap (Before row)),
                                           (''after'', VMap (After row))]) (Updated td))))"
    by (simp add: tableMapOf_def Let_def update_conv')
  show "map_of (tableMapOf td) ''deleted'' =
      (if Deleted td = [] then None else Some (VList (map VMap (Deleted td))))"
    by (simp add: tableMapOf_def Let_def update_conv')
  show "set (map fst (tableMapOf td)) \<subseteq> {''inserted'', ''updated'', ''deleted''}"
    by (auto simp: tableMapOf_def Let_def dom_update split: if_splits)
next
  assume "Run ff sched newStorage opts = Inr result"
  then have "distinct (map fst result)" by (rule Run_result_distinct)
  then show "map_of (resultMapOf cs result) t =
        (case map_of result t of
           None \<Rightarrow> None
         | Some d \<Rightarrow>
             if Inserted d = [] \<and> Updated d = [] \<and> Deleted d = [] then None
             else Some (VMap (tableMapOf d)))"
    by (rule resultMapOf_lookup)
next
  show "compareJSON marshal expected actual \<longleftrightarrow>
      (\<exists>s. marshal expected = Some s \<and> marshal actual = Some s)"
    by (rule compareJSON_iff)
next
  assume "From opts \<noteq> [] \<and> To opts \<noteq> [] \<and> expectedFile \<noteq> [] \<and>
    Run ff sched newStorage opts = Inr result \<and>
    readFile expectedFile = Some expectedData \<and> unmarshal expectedData = Some expected"
  then show "runAssertCmd ff sched newStorage marshal readFile unmarshal cs opts expectedFile =
        (if compareJSON marshal expected (VMap (resultMapOf cs result)) then Inr () else Inl Mismatch)"
    by (simp add: runAssertCmd_def)
next
  assume a: "list_all (\<lambda>(t, d). Inserted d = [] \<and> Updated d = [] \<and> Deleted d = []) result \<and>
    marshal (VMap []) = Some s0"
  then show e: "resultMapOf cs result = []"
    by (simp add: resultMapOf_all_empty)
  from a show "compareJSON marshal (VMap []) (VMap (resultMapOf cs result))"
    unfolding e by (simp add: compareJSON_def)
qed

theorem C9_assert_comparator_witness:
  "Run wholeFloat (\<lambda>table. inOrder) (\<lambda>dir. Some exampleStorage) exampleOptions =
     Inr [(''logs'', \<lparr>TableName = ''logs'', Inserted = [], Updated = [], Deleted = []\<rparr>),
          (''users'', \<lparr>TableName = ''users'', Inserted = [[(''id'', VFloat 3)]], Updated = [],
                       Deleted = []\<rparr>)] \<and>
   map_of (resultMapOf [1]
      [(''logs'', \<lparr>TableName = ''logs'', Inserted = [], Updated = [], Deleted = []\<rparr>),
       (''users'', \<lparr>TableName = ''users'', Inserted = [[(''id'', VFloat 3)]], Updated = [],
                    Deleted = []\<rparr>)]) ''users'' =
     Some (VMap [(''inserted'', VList [VMap [(''id'', VFloat 3)]])]) \<and>
   map_of (resultMapOf [1]
      [(''logs'', \<lparr>TableName = ''logs'', Inserted = [], Updated = [], Deleted = []\<rparr>),
       (''users'', \<lparr>TableName = ''users'', Inserted = [[(''id'', VFloat 3)]], Updated = [],
                    Deleted = []\<rparr>)]) ''logs'' = None \<and>
   runAssertCmd wholeFloat (\<lambda>table. inOrder) (\<lambda>dir. Some exampleStorage) exampleMarshal
      (\<lambda>file. Some ''{}'') (\<lambda>data. Some (VMap [])) [1] exampleOptions ''expected.json'' =
     Inl Mismatch \<and>
   Run wholeFloat (\<lambda>table. inOrder) (\<lambda>dir. Some exampleStorage)
      (exampleOptions\<lparr>Tables := [''logs'']\<rparr>) =
     Inr [(''logs'', \<lparr>TableName = ''logs'', Inserted = [], Updated = [], Deleted = []\<rparr>)] \<and>
   exampleMarshal (VMap []) = Some ''map[]'' \<and>
   runAssertCmd wholeFloat (\<lambda>table. inOrder) (\<lambda>dir. Some exampleStorage) exampleMarshal
      (\<lambda>file. Some ''{}'') (\<lambda>data. Some (VMap [])) [] (exampleOptions\<lparr>Tables := [''logs'']\<rparr>)
      ''expected.json'' = Inr ()"
proof -
  let ?logs = "\<lparr>TableName = ''logs'', Inserted = [], Updated = [], Deleted = []\<rparr>"
  let ?users = "\<lparr>TableName = ''users'', Inserted = [[(''id'', VFloat 3)]], Updated = [], Deleted = []\<rparr>"
  let ?R = "[(''logs'', ?logs), (''users'', ?users)]"
  let ?E = "[(''logs'', ?logs)]"
  let ?only = "exampleOptions\<lparr>Tables := [''logs'']\<rparr>"
  let ?ns = "\<lambda>dir. Some exampleStorage"
  let ?sch = "\<lambda>table. inOrder"
  have r: "Run wholeFloat ?sch ?ns exampleOptions = Inr ?R"
    by code_simp
  have r0: "Run wholeFloat ?sch ?ns ?only = Inr ?E"
    by code_simp
  have tm: "tableMapOf ?users = [(''inserted'', VList [VMap [(''id'', VFloat 3)]])]"
    by (simp add: tableMapOf_def)
  have m: "exampleMarshal (VMap []) = Some ''map[]''"
    by (simp add: exampleMarshal_def)
  have o: "From exampleOptions \<noteq> [] \<and> To exampleOptions \<noteq> [] \<and> ''expected.json'' \<noteq> []"
    "From ?only \<noteq> [] \<and> To ?only \<noteq> [] \<and> ''expected.json'' \<noteq> []"
    by (simp_all add: exampleOptions_def)
  have "exampleMarshal (VMap (resultMapOf [1] ?R)) = Some ''map[users:map[inserted:[map[id:3]]]]''"
    by code_simp
  with m have ne: "\<not> (\<exists>s. exampleMarshal (VMap []) = Some s \<and>
      exampleMarshal (VMap (resultMapOf [1] ?R)) = Some s)"
    by simp
  note u = C9_assert_comparator[where td = ?users and ff = wholeFloat and sched = ?sch
      and newStorage = ?ns and opts = exampleOptions and result = ?R and cs = "[1]"
      and marshal = exampleMarshal and expected = "VMap []"
      and actual = "VMap (resultMapOf [1] ?R)" and expectedFile = "''expected.json''"
      and readFile = "\<lambda>file. Some ''{}''" and expectedData = "''{}''"
      and unmarshal = "\<lambda>data. Some (VMap [])" and ?s0.0 = "''map[]''"]
  note z = C9_assert_comparator[where td = ?logs and ff = wholeFloat and sched = ?sch
      and newStorage = ?ns and opts = ?only and result = ?E and cs = "[]" and t = "''logs''"
      and marshal = exampleMarshal and expected = "VMap []"
      and actual = "VMap (resultMapOf [] ?E)" and expectedFile = "''expected.json''"
      and readFile = "\<lambda>file. Some ''{}''" and expectedData = "''{}''"
      and unmarshal = "\<lambda>data. Some (VMap [])" and ?s0.0 = "''map[]''"]
  from u[where t = "''users''"] r tm have 1: "map_of (resultMapOf [1] ?R) ''users'' =
      Some (VMap [(''inserted'', VList [VMap [(''id'', VFloat 3)]])])"
    by simp
  from u[where t = "''logs''"] r have 2: "map_of (resultMapOf [1] ?R) ''logs'' = None"
    by simp
  from u[where t = "''logs''"] ne have "\<not> compareJSON exampleMarshal (VMap []) (VMap (resultMapOf [1] ?R))"
    by blast
  with u[where t = "''logs''"] o(1) r
  have 3: "runAssertCmd wholeFloat ?sch ?ns exampleMarshal (\<lambda>file. Some ''{}'')
      (\<lambda>data. Some (VMap [])) [1] exampleOptions ''expected.json'' = Inl Mismatch"
    by simp
  have e: "list_all (\<lambda>(t, d). Inserted d = [] \<and> Updated d = [] \<and> Deleted d = []) ?E" by simp
  from z e m have 4: "compareJSON exampleMarshal (VMap []) (VMap (resultMapOf [] ?E))"
    by blast
  with z o(2) r0
  have 5: "runAssertCmd wholeFloat ?sch ?ns exampleMarshal (\<lambda>file. Some ''{}'')
      (\<lambda>data. Some (VMap [])) [] ?only ''expected.json'' = Inr ()"
    by simp
  from r 1 2 3 r0 m 5 show ?thesis by (intro conjI)
qed

text \<open>
  C10. The comparator is deep equality, column by column. Deep equality holds of every
  value and itself, and on canonically listed values it is equality; two numbers of
  different Go types (an \<^verbatim>\<open>int\<close> and a \<^verbatim>\<open>float64\<close>, an \<^verbatim>\<open>int\<close> and an \<^verbatim>\<open>int64\<close>) are never
  deeply equal, whatever their values. rowsEqual holds exactly when every column that is
  not ignored is missing from both rows or has deeply equal values in both. For a key in
  both key maps the updated bucket has no UpdatedRow with that key when rowsEqual holds
  and exactly one, built from the two rows, when it does not; so it has exactly one when
  a column that is not ignored holds numbers of different Go types in the two rows. (In
  a snapshot decoded from JSON every number is a float64: there \<^verbatim>\<open>1\<close> and \<^verbatim>\<open>1.0\<close> are one
  value, and rows that differ in nothing else compare equal.)
\<close>

theorem C10_numeric_representation:
  "deepEqual v v \<and>
   (canonical v \<and> canonical w \<longrightarrow> (deepEqual v w \<longleftrightarrow> v = w)) \<and>
   (numericType v = Some s \<and> numericType w = Some t \<and> s \<noteq> t \<longrightarrow> \<not> deepEqual v w) \<and>
   (rowsEqual r1 r2 ign \<longleftrightarrow>
      (\<forall>c. \<not> ign c \<longrightarrow> rel_option deepEqual (map_of r1 c) (map_of r2 c))) \<and>
   (map_of (keyMap ff fromRows) k = Some r1 \<and> map_of (keyMap ff toRows) k = Some r2 \<longrightarrow>
      filter (\<lambda>u. generateRowKey ff (PrimaryKey u) = k)
        (Updated (compareRows ff sch tn fromRows toRows ign)) =
        (if rowsEqual r1 r2 ign then []
         else [\<lparr>PrimaryKey = extractPrimaryKey r1,
                Before = filterIgnoredColumns r1 ign,
                After = filterIgnoredColumns r2 ign\<rparr>])) \<and>
   (map_of (keyMap ff fromRows) k = Some r1 \<and> map_of (keyMap ff toRows) k = Some r2 \<and>
    \<not> ign c \<and> map_of r1 c = Some a \<and> map_of r2 c = Some b \<and>
    numericType a = Some s \<and> numericType b = Some t \<and> s \<noteq> t \<longrightarrow>
      \<not> rowsEqual r1 r2 ign \<and>
      filter (\<lambda>u. generateRowKey ff (PrimaryKey u) = k)
        (Updated (compareRows ff sch tn fromRows toRows ign)) =
        [\<lparr>PrimaryKey = extractPrimaryKey r1,
          Before = filterIgnoredColumns r1 ign,
          After = filterIgnoredColumns r2 ign\<rparr>])"
proof (intro conjI impI)
  show "deepEqual v v" by (rule deepEqual_refl)
next
  assume "canonical v \<and> canonical w"
  then show "deepEqual v w \<longleftrightarrow> v = w" by (simp add: deepEqual_canonical)
next
  assume "numericType v = Some s \<and> numericType w = Some t \<and> s \<noteq> t"
  then show "\<not> deepEqual v w" by (simp add: deepEqual_numericType)
next
  show "rowsEqual r1 r2 ign \<longleftrightarrow>
      (\<forall>c. \<not> ign c \<longrightarrow> rel_option deepEqual (map_of r1 c) (map_of r2 c))"
    by (rule rowsEqual_iff)
next
  assume "map_of (keyMap ff fromRows) k = Some r1 \<and> map_of (keyMap ff toRows) k = Some r2"
  then show "filter (\<lambda>u. generateRowKey ff (PrimaryKey u) = k)
        (Updated (compareRows ff sch tn fromRows toRows ign)) =
        (if rowsEqual r1 r2 ign then []
         else [\<lparr>PrimaryKey = extractPrimaryKey r1,
                Before = filterIgnoredColumns r1 ign,
                After = filterIgnoredColumns r2 ign\<rparr>])"
    by (simp add: Updated_for_key)
next
  assume h: "map_of (keyMap ff fromRows) k = Some r1 \<and> map_of (keyMap ff toRows) k = Some r2 \<and>
    \<not> ign c \<and> map_of r1 c = Some a \<and> map_of r2 c = Some b \<and>
    numericType a = Some s \<and> numericType b = Some t \<and> s \<noteq> t"
  show ne: "\<not> rowsEqual r1 r2 ign"
  proof
    assume "rowsEqual r1 r2 ign"
    with h have "deepEqual a b" using rowsEqual_column by blast
    moreover from h have "\<not> deepEqual a b" by (simp add: deepEqual_numericType)
    ultimately show False by simp
  qed
  from h ne show "filter (\<lambda>u. generateRowKey ff (PrimaryKey u) = k)
        (Updated (compareRows ff sch tn fromRows toRows ign)) =
        [\<lparr>PrimaryKey = extractPrimaryKey r1,
          Before = filterIgnoredColumns r1 ign,
          After = filterIgnoredColumns r2 ign\<rparr>]"
    by (simp add: Updated_for_key)
qed

theorem C10_numeric_representation_witness:
  "deepEqual (VFloat 1) (VFloat 1) \<and>
   \<not> deepEqual (VInt 1) (VFloat 1) \<and>
   \<not> deepEqual (VInt 1) (VInteger GoInt64 1) \<and>
   canonical (VMap [(''a'', VFloat 1), (''b'', VNil)]) \<and>
   canonical (VMap [(''a'', VInt 1), (''b'', VNil)]) \<and>
   \<not> deepEqual (VMap [(''a'', VFloat 1), (''b'', VNil)]) (VMap [(''a'', VInt 1), (''b'', VNil)]) \<and>
   map_of (keyMap wholeFloat [[(''id'', VFloat 1), (''qty'', VFloat 1)]]) ''1'' =
     Some [(''id'', VFloat 1), (''qty'', VFloat 1)] \<and>
   rowsEqual [(''id'', VFloat 1), (''qty'', VFloat 1)] [(''id'', VFloat 1), (''qty'', VFloat 1)]
     (\<lambda>c. False) \<and>
   filter (\<lambda>u. generateRowKey wholeFloat (PrimaryKey u) = ''1'')
     (Updated (compareRows wholeFloat inOrder ''stock''
        [[(''id'', VFloat 1), (''qty'', VFloat 1)]] [[(''id'', VFloat 1), (''qty'', VFloat 1)]]
        (\<lambda>c. False))) = [] \<and>
   map_of (keyMap wholeFloat [[(''id'', VInt 1), (''qty'', VInt 1)]]) ''1'' =
     Some [(''id'', VInt 1), (''qty'', VInt 1)] \<and>
   filter (\<lambda>u. generateRowKey wholeFloat (PrimaryKey u) = ''1'')
     (Updated (compareRows wholeFloat inOrder ''stock''
        [[(''id'', VInt 1), (''qty'', VInt 1)]] [[(''id'', VFloat 1), (''qty'', VFloat 1)]]
        (\<lambda>c. c = ''id''))) =
     [\<lparr>PrimaryKey = [(''id'', VInt 1)], Before = [(''qty'', VInt 1)], After = [(''qty'', VFloat 1)]\<rparr>] \<and>
   map_of (keyMap wholeFloat [[(''id'', VInt 1), (''qty'', VInteger GoInt64 1)]]) ''1'' =
     Some [(''id'', VInt 1), (''qty'', VInteger GoInt64 1)] \<and>
   filter (\<lambda>u. generateRowKey wholeFloat (PrimaryKey u) = ''1'')
     (Updated (compareRows wholeFloat inOrder ''stock''
        [[(''id'', VInt 1), (''qty'', VInt 1)]] [[(''id'', VInt 1), (''qty'', VInteger GoInt64 1)]]
        (\<lambda>c. False))) =
     [\<lparr>PrimaryKey = [(''id'', VInt 1)], Before = [(''id'', VInt 1), (''qty'', VInt 1)],
       After = [(''id'', VInt 1), (''qty'', VInteger GoInt64 1)]\<rparr>]"
proof -
  let ?i = "[(''id'', VInt 1), (''qty'', VInt 1)]"
  let ?f = "[(''id'', VFloat 1), (''qty'', VFloat 1)]"
  let ?l = "[(''id'', VInt 1), (''qty'', VInteger GoInt64 1)]"
  have ki: "map_of (keyMap wholeFloat [?i]) ''1'' = Some ?i" by code_simp
  have kf: "map_of (keyMap wholeFloat [?f]) ''1'' = Some ?f" by code_simp
  have kl: "map_of (keyMap wholeFloat [?l]) ''1'' = Some ?l" by code_simp
  have ty: "numericType (VInt 1) = Some (Inl GoInt) \<and> numericType (VFloat 1) = Some (Inr GoFloat64) \<and>
      Inl GoInt \<noteq> (Inr GoFloat64 :: intKind + floatKind)"
    "numericType (VInt 1) = Some (Inl GoInt) \<and> numericType (VInteger GoInt64 1) = Some (Inl GoInt64) \<and>
      (Inl GoInt :: intKind + floatKind) \<noteq> Inl GoInt64"
    by simp_all
  have col: "\<not> (''qty'' = ''id'')" "map_of ?i ''qty'' = Some (VInt 1)"
    "map_of ?f ''qty'' = Some (VFloat 1)" "map_of ?l ''qty'' = Some (VInteger GoInt64 1)"
    by simp_all
  have e: "extractPrimaryKey ?i = [(''id'', VInt 1)]"
    "filterIgnoredColumns ?i (\<lambda>c. c = ''id'') = [(''qty'', VInt 1)]"
    "filterIgnoredColumns ?f (\<lambda>c. c = ''id'') = [(''qty'', VFloat 1)]"
    "filterIgnoredColumns ?i (\<lambda>c. False) = ?i"
    "filterIgnoredColumns ?l (\<lambda>c. False) = ?l"
    by (simp_all add: extractPrimaryKey_def filterIgnoredColumns_def)
  note same = C10_numeric_representation[where v = "VFloat 1" and w = "VFloat 1"
      and ?r1.0 = ?f and ?r2.0 = ?f and ign = "\<lambda>c. False" and ff = wholeFloat
      and fromRows = "[?f]" and toRows = "[?f]" and k = "''1''" and sch = inOrder and tn = "''stock''"]
  note intfloat = C10_numeric_representation[where v = "VInt 1" and w = "VFloat 1"
      and s = "Inl GoInt" and t = "Inr GoFloat64"
      and ?r1.0 = ?i and ?r2.0 = ?f and ign = "\<lambda>c. c = ''id''" and ff = wholeFloat
      and fromRows = "[?i]" and toRows = "[?f]" and k = "''1''" and sch = inOrder and tn = "''stock''"
      and c = "''qty''" and a = "VInt 1" and b = "VFloat 1"]
  note intlong = C10_numeric_representation[where v = "VInt 1" and w = "VInteger GoInt64 1"
      and s = "Inl GoInt" and t = "Inl GoInt64"
      and ?r1.0 = ?i and ?r2.0 = ?l and ign = "\<lambda>c. False" and ff = wholeFloat
      and fromRows = "[?i]" and toRows = "[?l]" and k = "''1''" and sch = inOrder and tn = "''stock''"
      and c = "''qty''" and a = "VInt 1" and b = "VInteger GoInt64 1"]
  note c2 = conjunct2
  have 1: "deepEqual (VFloat 1) (VFloat 1)"
    by (rule same[THEN conjunct1])
  from intfloat[THEN c2, THEN c2, THEN conjunct1] ty(1)
  have 2: "\<not> deepEqual (VInt 1) (VFloat 1)" by (rule mp)
  from intlong[THEN c2, THEN c2, THEN conjunct1] ty(2)
  have 3: "\<not> deepEqual (VInt 1) (VInteger GoInt64 1)" by (rule mp)
  have can: "canonical (VMap [(''a'', VFloat 1), (''b'', VNil)])"
    "canonical (VMap [(''a'', VInt 1), (''b'', VNil)])"
    by simp_all
  have "VMap [(''a'', VFloat 1), (''b'', VNil)] \<noteq> VMap [(''a'', VInt 1), (''b'', VNil)]"
    by simp
  with C10_numeric_representation[where v = "VMap [(''a'', VFloat 1), (''b'', VNil)]"
      and w = "VMap [(''a'', VInt 1), (''b'', VNil)]", THEN c2, THEN conjunct1] can
  have m: "\<not> deepEqual (VMap [(''a'', VFloat 1), (''b'', VNil)]) (VMap [(''a'', VInt 1), (''b'', VNil)])"
    by simp
  have "rel_option deepEqual (map_of ?f c) (map_of ?f c)" for c
    by (cases "map_of ?f c") (simp_all add: deepEqual_refl)
  then have 4: "rowsEqual ?f ?f (\<lambda>c. False)"
    by (simp only: same[THEN c2, THEN c2, THEN c2, THEN conjunct1] simp_thms)
  from same[THEN c2, THEN c2, THEN c2, THEN c2, THEN conjunct1] kf 4
  have 5: "filter (\<lambda>u. generateRowKey wholeFloat (PrimaryKey u) = ''1'')
     (Updated (compareRows wholeFloat inOrder ''stock'' [?f] [?f] (\<lambda>c. False))) = []"
    by simp
  from intfloat[THEN c2, THEN c2, THEN c2, THEN c2, THEN c2] ki kf col ty(1) e
  have 6: "filter (\<lambda>u. generateRowKey wholeFloat (PrimaryKey u) = ''1'')
     (Updated (compareRows wholeFloat inOrder ''stock'' [?i] [?f] (\<lambda>c. c = ''id''))) =
     [\<lparr>PrimaryKey = [(''id'', VInt 1)], Before = [(''qty'', VInt 1)], After = [(''qty'', VFloat 1)]\<rparr>]"
    by simp
  from intlong[THEN c2, THEN c2, THEN c2, THEN c2, THEN c2] ki kl col ty(2) e
  have 7: "filter (\<lambda>u. generateRowKey wholeFloat (PrimaryKey u) = ''1'')
     (Updated (compareRows wholeFloat inOrder ''stock'' [?i] [?l] (\<lambda>c. False))) =
     [\<lparr>PrimaryKey = [(''id'', VInt 1)], Before = ?i, After = ?l\<rparr>]"
    by simp
  from 1 2 3 can m kf 4 5 ki 6 kl 7 show ?thesis by (intro conjI)
qed

end
